theory Spec2Isabelle
  imports
    Complex_Main
    "HOL-Library.Char_ord"
    "HOL-Library.List_Lexorder"
    "HOL-Library.Product_Lexorder"
    "HOL-Library.Multiset"
begin

section \<open>Accident records and the loaded relation\<close>

text \<open>
  The package keeps its data in an embedded SQL engine and every analysis is one SQL
  query written out in \<^verbatim>\<open>analyzer.py\<close> or \<^verbatim>\<open>data_loader.py\<close>. The embedding
  gives each query the meaning SQL gives it over a list of rows: \<^verbatim>\<open>WHERE\<close> is a
  filter, \<^verbatim>\<open>GROUP BY\<close> collects the rows that agree on the key, \<^verbatim>\<open>COUNT(*)\<close> is the
  length of a group, \<^verbatim>\<open>AVG\<close> the mean of the non-null values, \<^verbatim>\<open>ORDER BY\<close> a sort.
  A column value that is SQL \<^verbatim>\<open>NULL\<close> is \<open>None\<close>. Floating-point results
  (\<^verbatim>\<open>AVG\<close>, the percentages) are exact rationals here.
\<close>

datatype month = Jan | Feb | Mar | Apr | May | Jun | Jul | Aug | Sep | Oct | Nov | Dec

fun month_num :: "month \<Rightarrow> int" where
  "month_num Jan = 1" | "month_num Feb = 2" | "month_num Mar = 3"
| "month_num Apr = 4" | "month_num May = 5" | "month_num Jun = 6"
| "month_num Jul = 7" | "month_num Aug = 8" | "month_num Sep = 9"
| "month_num Oct = 10" | "month_num Nov = 11" | "month_num Dec = 12"

record timestamp =
  ts_year :: int
  ts_month :: month
  ts_day :: int
  ts_hour :: int
  ts_minute :: int
  ts_second :: int

datatype val = VInt int | VStr string | VTime timestamp

type_synonym cell = "val option"

text \<open>
  One row of the source file. The five key columns carry the types the analyses use
  them at; \<open>other\<close> holds every further column by name.
\<close>

record row =
  ID :: "string option"
  Start_Time :: "timestamp option"
  State :: "string option"
  Severity :: "int option"
  Weather_Condition :: "string option"
  other :: "string \<Rightarrow> cell"

text \<open>
  The relation \<^verbatim>\<open>read_csv_auto\<close> makes of the file: the column names of the header
  and the rows. A field of a row whose column is not in \<open>columns\<close> is never read: every
  query that names such a column fails before it looks at a row.
\<close>

record table =
  columns :: "string list"
  rows :: "row list"

datatype error =
    FileNotFound
  | LoadError
  | QueryError string
  | ConversionError string
  | ConnectionError
  | ZeroDivisionError

text \<open>
  The engine compares names without regard to case: \<^verbatim>\<open>state\<close> names the column
  \<^verbatim>\<open>State\<close>.
\<close>

definition lower_char :: "char \<Rightarrow> char" where
  "lower_char c =
     (case map_of (zip ''ABCDEFGHIJKLMNOPQRSTUVWXYZ'' ''abcdefghijklmnopqrstuvwxyz'') c of
        Some l \<Rightarrow> l
      | None \<Rightarrow> c)"

definition same_name :: "string \<Rightarrow> string \<Rightarrow> bool" where
  "same_name a b \<longleftrightarrow> map lower_char a = map lower_char b"

definition cell_of :: "row \<Rightarrow> string \<Rightarrow> cell" where
  "cell_of r c =
     (if same_name c ''ID'' then map_option VStr (ID r)
      else if same_name c ''Start_Time'' then map_option VTime (Start_Time r)
      else if same_name c ''State'' then map_option VStr (State r)
      else if same_name c ''Severity'' then map_option VInt (Severity r)
      else if same_name c ''Weather_Condition'' then map_option VStr (Weather_Condition r)
      else other r c)"

subsection \<open>The SQL operators the queries use\<close>

text \<open>\<^verbatim>\<open>EXTRACT(part FROM Start_Time::TIMESTAMP)\<close>: \<^verbatim>\<open>NULL\<close> on a \<^verbatim>\<open>NULL\<close> timestamp.\<close>

definition extract_year :: "timestamp option \<Rightarrow> int option" where
  "extract_year t = map_option ts_year t"

definition extract_month :: "timestamp option \<Rightarrow> int option" where
  "extract_month t = map_option (\<lambda>x. month_num (ts_month x)) t"

definition extract_hour :: "timestamp option \<Rightarrow> int option" where
  "extract_hour t = map_option ts_hour t"

text \<open>
  \<^verbatim>\<open>EXTRACT(dow ...)\<close>: the day of the week of the calendar date, 0 for Sunday
  to 6 for Saturday.
\<close>

definition dow_offset :: "month \<Rightarrow> int" where
  "dow_offset m =
     (case m of Jan \<Rightarrow> 0 | Feb \<Rightarrow> 3 | Mar \<Rightarrow> 2 | Apr \<Rightarrow> 5 | May \<Rightarrow> 0 | Jun \<Rightarrow> 3
      | Jul \<Rightarrow> 5 | Aug \<Rightarrow> 1 | Sep \<Rightarrow> 4 | Oct \<Rightarrow> 6 | Nov \<Rightarrow> 2 | Dec \<Rightarrow> 4)"

definition day_of_week :: "timestamp \<Rightarrow> int" where
  "day_of_week t =
     (let y = (if month_num (ts_month t) < 3 then ts_year t - 1 else ts_year t)
      in (y + y div 4 - y div 100 + y div 400 + dow_offset (ts_month t) + ts_day t) mod 7)"

definition extract_dow :: "timestamp option \<Rightarrow> int option" where
  "extract_dow t = map_option day_of_week t"

text \<open>\<^verbatim>\<open>AVG\<close> skips \<^verbatim>\<open>NULL\<close>s and is \<^verbatim>\<open>NULL\<close> when nothing is left.\<close>

definition non_null :: "'a option list \<Rightarrow> 'a list" where
  "non_null xs = List.map_filter (\<lambda>x. x) xs"

definition sql_avg :: "int option list \<Rightarrow> rat option" where
  "sql_avg xs =
     (let vs = non_null xs
      in if vs = [] then None else Some (of_int (sum_list vs) / of_nat (length vs)))"

text \<open>
  \<^verbatim>\<open>GROUP BY\<close>: one group per distinct key, holding the rows with that key. The
  groups come in the order their keys first appear; the sort of \<^verbatim>\<open>ORDER BY\<close> is
  stable (\<open>sort_key\<close> is an insertion sort), so rows that tie keep that order.
\<close>

definition first_seen :: "'a list \<Rightarrow> 'a list" where
  "first_seen xs = rev (remdups (rev xs))"

definition group_by :: "('r \<Rightarrow> 'k) \<Rightarrow> 'r list \<Rightarrow> ('k \<times> 'r list) list" where
  "group_by key rs = map (\<lambda>k. (k, filter (\<lambda>r. key r = k) rs)) (first_seen (map key rs))"

text \<open>Ascending order puts \<^verbatim>\<open>NULL\<close> last.\<close>

definition nulls_last :: "int option \<Rightarrow> bool \<times> int" where
  "nulls_last x = (case x of None \<Rightarrow> (True, 0) | Some v \<Rightarrow> (False, v))"

definition nulls_last_str :: "string option \<Rightarrow> bool \<times> string" where
  "nulls_last_str x = (case x of None \<Rightarrow> (True, []) | Some v \<Rightarrow> (False, v))"

text \<open>A query fails at the first column it names that the relation does not have.\<close>

fun require_columns :: "string list \<Rightarrow> string list \<Rightarrow> error + unit" where
  "require_columns cols [] = Inr ()"
| "require_columns cols (c # cs) =
     (if c \<in> set cols then require_columns cols cs else Inl (QueryError c))"

text \<open>
  The column of the relation that a name in a query denotes, in the header's spelling;
  a query fails at the first name that denotes none.
\<close>

definition find_column :: "string list \<Rightarrow> string \<Rightarrow> string option" where
  "find_column cols name = find (\<lambda>c. same_name c name) cols"

fun require_names :: "string list \<Rightarrow> string list \<Rightarrow> error + unit" where
  "require_names cols [] = Inr ()"
| "require_names cols (c # cs) =
     (case find_column cols c of
        Some _ \<Rightarrow> require_names cols cs
      | None \<Rightarrow> Inl (QueryError c))"

text \<open>A list of results is the list of their values, or the first error.\<close>

fun bind_all :: "(error + 'a) list \<Rightarrow> error + 'a list" where
  "bind_all [] = Inr []"
| "bind_all (x # xs) =
     (case x of
        Inl e \<Rightarrow> Inl e
      | Inr v \<Rightarrow> (case bind_all xs of Inl e \<Rightarrow> Inl e | Inr vs \<Rightarrow> Inr (v # vs)))"

section \<open>The risk analyzer's queries\<close>

subsection \<open>\<^verbatim>\<open>compute_risk\<close>\<close>

definition year_col :: string where
  "year_col = ''EXTRACT(year FROM Start_Time::TIMESTAMP) as year''"

definition month_col :: string where
  "month_col = ''EXTRACT(month FROM Start_Time::TIMESTAMP) as month''"

definition hour_col :: string where
  "hour_col = ''EXTRACT(hour FROM Start_Time::TIMESTAMP) as hour''"

text \<open>The list \<^verbatim>\<open>group_cols\<close> as the method builds it, statement by statement.\<close>

definition group_cols :: "string list \<Rightarrow> bool \<Rightarrow> bool \<Rightarrow> string list" where
  "group_cols levels include_weather include_time =
     (let g0 = [year_col] @ levels;
          g1 = (if include_weather \<and> ''Weather_Condition'' \<notin> set levels
                then g0 @ [''Weather_Condition''] else g0);
          g2 = (if include_time then g1 @ [month_col, hour_col] else g1)
      in g2)"

text \<open>
  \<^verbatim>\<open>col.split(' as ')[-1]\<close>: the piece after the last separator that Python's
  left-to-right split finds, the whole string when there is none.
\<close>

fun after_as :: "string \<Rightarrow> string \<Rightarrow> string" where
  "after_as acc [] = acc"
| "after_as acc (c # cs) =
     (if take 4 (c # cs) = '' as '' then after_as [] (drop 3 cs)
      else after_as (acc @ [c]) cs)"

definition group_by_cols :: "string list \<Rightarrow> string list" where
  "group_by_cols gc = map (after_as []) gc"

text \<open>
  The method splices \<^verbatim>\<open>', '.join(group_cols)\<close> into the select list and
  \<^verbatim>\<open>', '.join(group_by_cols)\<close> into the \<^verbatim>\<open>GROUP BY\<close> clause, unquoted, so the
  engine parses the caller's text. The embedding reads the part of SQL that the method
  writes itself and that its documentation asks of the caller (``list of columns to
  group by''): an item of the select list is one of the three derived fields, with its
  alias, or a bare identifier, which is a column reference.
\<close>

datatype expr = ExtractYear | ExtractMonth | ExtractHour | Col string

definition eval_expr :: "expr \<Rightarrow> row \<Rightarrow> cell" where
  "eval_expr e r =
     (case e of
        ExtractYear \<Rightarrow> map_option VInt (extract_year (Start_Time r))
      | ExtractMonth \<Rightarrow> map_option VInt (extract_month (Start_Time r))
      | ExtractHour \<Rightarrow> map_option VInt (extract_hour (Start_Time r))
      | Col c \<Rightarrow> cell_of r c)"

definition parse_select :: "string \<Rightarrow> expr \<times> string option" where
  "parse_select item =
     (if item = year_col then (ExtractYear, Some ''year'')
      else if item = month_col then (ExtractMonth, Some ''month'')
      else if item = hour_col then (ExtractHour, Some ''hour'')
      else (Col item, None))"

text \<open>
  Binding an expression resolves its column against the header; the derived fields read
  \<^verbatim>\<open>Start_Time\<close>.
\<close>

definition bind_expr :: "string list \<Rightarrow> expr \<Rightarrow> error + expr" where
  "bind_expr cols e =
     (case e of
        Col n \<Rightarrow>
          (case find_column cols n of
             Some c \<Rightarrow> Inr (Col c)
           | None \<Rightarrow> Inl (QueryError n))
      | _ \<Rightarrow>
          (case find_column cols ''Start_Time'' of
             Some _ \<Rightarrow> Inr e
           | None \<Rightarrow> Inl (QueryError ''Start_Time'')))"

text \<open>
  A name of the \<^verbatim>\<open>GROUP BY\<close> clause denotes the column of that name when the
  relation has one, else the select item with that alias.
\<close>

definition has_alias :: "string \<Rightarrow> expr \<times> string option \<Rightarrow> bool" where
  "has_alias name s = (case snd s of Some a \<Rightarrow> same_name a name | None \<Rightarrow> False)"

definition bind_group ::
  "string list \<Rightarrow> (expr \<times> string option) list \<Rightarrow> string \<Rightarrow> error + expr" where
  "bind_group cols selects name =
     (case find_column cols name of
        Some c \<Rightarrow> Inr (Col c)
      | None \<Rightarrow>
          (case find (has_alias name) selects of
             Some s \<Rightarrow> bind_expr cols (fst s)
           | None \<Rightarrow> Inl (QueryError name)))"

definition risk_where :: "row \<Rightarrow> bool" where
  "risk_where r \<longleftrightarrow>
     Start_Time r \<noteq> None \<and> State r \<noteq> None \<and> State r \<noteq> Some '''' \<and> Severity r \<noteq> None"

record risk_row =
  keys :: "cell list"
  accident_count :: nat
  avg_severity :: "rat option"

text \<open>
  What the embedding leaves to the engine, as a parameter: which words its grammar does
  not read as a column name (\<open>reserved\<close>), what it returns for a query whose text is
  outside the part read above (\<open>other_query\<close>, given the relation, the select items and
  the \<^verbatim>\<open>GROUP BY\<close> names), and in which order it returns rows that tie under
  \<^verbatim>\<open>ORDER BY\<close> (\<open>tie\<close>, a rank for each row of the list of groups: the query names no
  tie-breaker).
\<close>

record engine =
  reserved :: "string \<Rightarrow> bool"
  other_query :: "table \<Rightarrow> string list \<Rightarrow> string list \<Rightarrow> error + risk_row list"
  tie :: "risk_row list \<Rightarrow> risk_row \<Rightarrow> nat"

definition ident_start :: "char \<Rightarrow> bool" where
  "ident_start c \<longleftrightarrow>
     c \<in> set ''abcdefghijklmnopqrstuvwxyzABCDEFGHIJKLMNOPQRSTUVWXYZ_''"

definition ident_char :: "char \<Rightarrow> bool" where
  "ident_char c \<longleftrightarrow> ident_start c \<or> c \<in> set ''0123456789''"

definition is_identifier :: "string \<Rightarrow> bool" where
  "is_identifier s = (case s of [] \<Rightarrow> False | c # cs \<Rightarrow> ident_start c \<and> list_all ident_char cs)"

text \<open>
  A dimension the embedding reads: a bare identifier that is not reserved and is not one
  of the output names of the query itself. The dimension list is read when each of its
  dimensions is, and no column of the relation has the name of a derived field (which
  the \<^verbatim>\<open>GROUP BY\<close> clause names by alias).
\<close>

definition own_names :: "string list" where
  "own_names = [''year'', ''month'', ''hour'', ''accident_count'', ''avg_severity'']"

definition plain :: "engine \<Rightarrow> string \<Rightarrow> bool" where
  "plain eng l \<longleftrightarrow>
     is_identifier l \<and> \<not> reserved eng l \<and> \<not> list_ex (same_name l) own_names"

definition in_fragment :: "engine \<Rightarrow> string list \<Rightarrow> string list \<Rightarrow> bool" where
  "in_fragment eng cols levels \<longleftrightarrow>
     list_all (plain eng) levels \<and>
     \<not> list_ex (\<lambda>c. list_ex (same_name c) [''year'', ''month'', ''hour'']) cols"

text \<open>The value \<^verbatim>\<open>ORDER BY year\<close> sorts on: the first select item.\<close>

definition year_of :: "cell list \<Rightarrow> int option" where
  "year_of ks = (case ks of Some (VInt y) # _ \<Rightarrow> Some y | _ \<Rightarrow> None)"

definition risk_order :: "risk_row \<Rightarrow> (bool \<times> int) \<times> int" where
  "risk_order r = (nulls_last (year_of (keys r)), - int (accident_count r))"

text \<open>
  \<^verbatim>\<open>ORDER BY year, accident_count DESC\<close>: by year, then by count descending; rows
  that tie on both come in the order the engine gives them.
\<close>

definition order_by_risk :: "engine \<Rightarrow> risk_row list \<Rightarrow> risk_row list" where
  "order_by_risk eng gs = sort_key (\<lambda>g. (risk_order g, tie eng gs g)) gs"

definition risk_groups :: "(row \<Rightarrow> cell) list \<Rightarrow> row list \<Rightarrow> risk_row list" where
  "risk_groups fs rs =
     map (\<lambda>(k, g). \<lparr>keys = k, accident_count = length g, avg_severity = sql_avg (map Severity g)\<rparr>)
       (group_by (\<lambda>r. map (\<lambda>f. f r) fs) (filter risk_where rs))"

text \<open>
  The query: the \<^verbatim>\<open>WHERE\<close> clause is bound first, then the \<^verbatim>\<open>GROUP BY\<close> names,
  then the select items. The rows are grouped on the values of the \<^verbatim>\<open>GROUP BY\<close>
  expressions; when these are the select items, in their order, each result row shows
  them with the count and the mean severity of its group.
\<close>

definition compute_risk_query ::
  "engine \<Rightarrow> table \<Rightarrow> string list \<Rightarrow> bool \<Rightarrow> bool \<Rightarrow> error + risk_row list" where
  "compute_risk_query eng t levels include_weather include_time =
     (let gc = group_cols levels include_weather include_time;
          gb = group_by_cols gc;
          selects = map parse_select gc
      in if \<not> in_fragment eng (columns t) levels then other_query eng t gc gb
         else
           (case require_names (columns t) [''Start_Time'', ''State'', ''Severity''] of
              Inl e \<Rightarrow> Inl e
            | Inr _ \<Rightarrow>
                (case bind_all (map (bind_group (columns t) selects) gb) of
                   Inl e \<Rightarrow> Inl e
                 | Inr ges \<Rightarrow>
                     (case bind_all (map (\<lambda>s. bind_expr (columns t) (fst s)) selects) of
                        Inl e \<Rightarrow> Inl e
                      | Inr ses \<Rightarrow>
                          if ses \<noteq> ges then other_query eng t gc gb
                          else Inr (order_by_risk eng
                                 (risk_groups (map eval_expr ges) (rows t)))))))"

subsection \<open>\<^verbatim>\<open>compute_state_risk_rates\<close>\<close>

record rate_row =
  rate_year :: "int option"
  rate_state :: "string option"
  total_accidents :: nat
  severe_accidents :: nat
  severe_accident_rate :: rat

text \<open>\<^verbatim>\<open>CASE WHEN Severity >= 3 THEN 1 END\<close> is non-null exactly on these rows.\<close>

definition is_severe :: "row \<Rightarrow> bool" where
  "is_severe r = (case Severity r of None \<Rightarrow> False | Some v \<Rightarrow> 3 \<le> v)"

definition rate_order :: "rate_row \<Rightarrow> (bool \<times> int) \<times> int" where
  "rate_order r = (nulls_last (rate_year r), - int (total_accidents r))"

definition rate_groups :: "row list \<Rightarrow> rate_row list" where
  "rate_groups rs =
     map (\<lambda>(k, g).
            \<lparr>rate_year = fst k, rate_state = snd k,
             total_accidents = length g,
             severe_accidents = length (filter is_severe g),
             severe_accident_rate =
               of_nat (length (filter is_severe g)) * 100 / of_nat (length g)\<rparr>)
       (group_by (\<lambda>r. (extract_year (Start_Time r), State r)) (filter risk_where rs))"

definition state_risk_rates_query :: "table \<Rightarrow> error + rate_row list" where
  "state_risk_rates_query t =
     (case require_columns (columns t) [''Start_Time'', ''State'', ''Severity''] of
        Inl e \<Rightarrow> Inl e
      | Inr _ \<Rightarrow> Inr (sort_key rate_order (rate_groups (rows t))))"

subsection \<open>\<^verbatim>\<open>compute_temporal_patterns\<close>\<close>

record 'k agg_row =
  agg_key :: 'k
  agg_count :: nat
  agg_avg :: "rat option"

definition aggregate :: "(row \<Rightarrow> 'k) \<Rightarrow> row list \<Rightarrow> 'k agg_row list" where
  "aggregate key rs =
     map (\<lambda>(k, g). \<lparr>agg_key = k, agg_count = length g, agg_avg = sql_avg (map Severity g)\<rparr>)
       (group_by key rs)"

text \<open>The \<^verbatim>\<open>CASE\<close> of the seasonal query; it has no \<^verbatim>\<open>ELSE\<close>.\<close>

definition season_case :: "int option \<Rightarrow> string option" where
  "season_case m =
     (case m of
        None \<Rightarrow> None
      | Some n \<Rightarrow>
          if n \<in> set [12, 1, 2] then Some ''Winter''
          else if n \<in> set [3, 4, 5] then Some ''Spring''
          else if n \<in> set [6, 7, 8] then Some ''Summer''
          else if n \<in> set [9, 10, 11] then Some ''Fall''
          else None)"

definition time_where :: "row \<Rightarrow> bool" where
  "time_where r \<longleftrightarrow> Start_Time r \<noteq> None"

record temporal_patterns =
  hourly :: "int option agg_row list"
  daily :: "int option agg_row list"
  monthly :: "int option agg_row list"
  seasonal :: "string option agg_row list"

definition temporal_patterns_query :: "table \<Rightarrow> error + temporal_patterns" where
  "temporal_patterns_query t =
     (case require_columns (columns t) [''Start_Time'', ''Severity''] of
        Inl e \<Rightarrow> Inl e
      | Inr _ \<Rightarrow>
          (let rs = filter time_where (rows t)
           in Inr
             \<lparr>hourly = sort_key (\<lambda>a. nulls_last (agg_key a))
                 (aggregate (\<lambda>r. extract_hour (Start_Time r)) rs),
              daily = sort_key (\<lambda>a. nulls_last (agg_key a))
                 (aggregate (\<lambda>r. extract_dow (Start_Time r)) rs),
              monthly = sort_key (\<lambda>a. nulls_last (agg_key a))
                 (aggregate (\<lambda>r. extract_month (Start_Time r)) rs),
              seasonal = sort_key (\<lambda>a. - int (agg_count a))
                 (aggregate (\<lambda>r. season_case (extract_month (Start_Time r))) rs)\<rparr>))"

subsection \<open>\<^verbatim>\<open>compute_weather_risk\<close>\<close>

record weather_row =
  w_state :: "string option"
  w_condition :: "string option"
  w_count :: nat
  w_avg :: "rat option"
  state_percentage :: rat
  weather_rank :: nat

definition weather_where :: "row \<Rightarrow> bool" where
  "weather_where r \<longleftrightarrow>
     State r \<noteq> None \<and> State r \<noteq> Some '''' \<and>
     Weather_Condition r \<noteq> None \<and> Weather_Condition r \<noteq> Some '''' \<and>
     Severity r \<noteq> None"

text \<open>
  The two window functions, over one partition (the groups of one state):
  \<^verbatim>\<open>SUM(COUNT(*)) OVER (PARTITION BY State)\<close> is the sum of the partition's counts and
  \<^verbatim>\<open>ROW_NUMBER() OVER (PARTITION BY State ORDER BY COUNT(*) DESC)\<close> numbers the
  partition's groups from 1 in descending order of count.
\<close>

definition window_rows ::
  "(string option \<times> string option) agg_row list \<Rightarrow> weather_row list" where
  "window_rows part =
     (let total = sum_list (map agg_count part)
      in map (\<lambda>(g, n).
                \<lparr>w_state = fst (agg_key g), w_condition = snd (agg_key g),
                 w_count = agg_count g, w_avg = agg_avg g,
                 state_percentage = of_nat (agg_count g) * 100 / of_nat total,
                 weather_rank = n\<rparr>)
           (zip (sort_key (\<lambda>g. - int (agg_count g)) part) [1 ..< Suc (length part)]))"

definition weather_groups :: "row list \<Rightarrow> (string option \<times> string option) agg_row list" where
  "weather_groups rs =
     aggregate (\<lambda>r. (State r, Weather_Condition r)) (filter weather_where rs)"

definition weather_windows :: "row list \<Rightarrow> weather_row list" where
  "weather_windows rs =
     (let gs = weather_groups rs
      in concat (map (\<lambda>s. window_rows (filter (\<lambda>g. fst (agg_key g) = s) gs))
                   (first_seen (map (\<lambda>g. fst (agg_key g)) gs))))"

definition weather_order :: "weather_row \<Rightarrow> (bool \<times> string) \<times> int" where
  "weather_order r = (nulls_last_str (w_state r), - int (w_count r))"

definition weather_risk_query :: "table \<Rightarrow> error + weather_row list" where
  "weather_risk_query t =
     (case require_columns (columns t) [''State'', ''Weather_Condition'', ''Severity''] of
        Inl e \<Rightarrow> Inl e
      | Inr _ \<Rightarrow> Inr (sort_key weather_order (weather_windows (rows t))))"

subsection \<open>\<^verbatim>\<open>generate_summary_report\<close>\<close>

definition ts_key :: "timestamp \<Rightarrow> int \<times> int \<times> int \<times> int \<times> int \<times> int" where
  "ts_key t =
     (ts_year t, month_num (ts_month t), ts_day t, ts_hour t, ts_minute t, ts_second t)"

definition sql_min_ts :: "timestamp option list \<Rightarrow> timestamp option" where
  "sql_min_ts xs =
     (case non_null xs of
        [] \<Rightarrow> None
      | t # ts \<Rightarrow> Some (fold (\<lambda>a b. if ts_key a < ts_key b then a else b) ts t))"

definition sql_max_ts :: "timestamp option list \<Rightarrow> timestamp option" where
  "sql_max_ts xs =
     (case non_null xs of
        [] \<Rightarrow> None
      | t # ts \<Rightarrow> Some (fold (\<lambda>a b. if ts_key b < ts_key a then a else b) ts t))"

definition state_where :: "row \<Rightarrow> bool" where
  "state_where r \<longleftrightarrow> State r \<noteq> None \<and> State r \<noteq> Some ''''"

definition severity_where :: "row \<Rightarrow> bool" where
  "severity_where r \<longleftrightarrow> Severity r \<noteq> None"

record summary_report =
  summary_total_accidents :: nat
  date_range :: "timestamp option \<times> timestamp option"
  states_covered :: nat
  top_states :: "(string option \<times> nat) list"
  severity_distribution :: "(int option \<times> nat \<times> rat) list"

definition top_states_rows :: "row list \<Rightarrow> (string option \<times> nat) list" where
  "top_states_rows rs =
     take 10 (sort_key (\<lambda>p. - int (snd p))
       (map (\<lambda>(k, g). (k, length g)) (group_by State (filter state_where rs))))"

definition severity_dist_rows :: "row list \<Rightarrow> (int option \<times> nat \<times> rat) list" where
  "severity_dist_rows rs =
     (let gs = map (\<lambda>(k, g). (k, length g)) (group_by Severity (filter severity_where rs));
          total = sum_list (map snd gs)
      in sort_key (\<lambda>p. nulls_last (fst p))
           (map (\<lambda>(k, n). (k, n, of_nat n * 100 / of_nat total)) gs))"

definition summary_report_query :: "table \<Rightarrow> error + summary_report" where
  "summary_report_query t =
     (case require_columns (columns t) [''Start_Time'', ''State'', ''Severity''] of
        Inl e \<Rightarrow> Inl e
      | Inr _ \<Rightarrow>
          Inr \<lparr>summary_total_accidents = length (rows t),
               date_range =
                 (sql_min_ts (map Start_Time (filter time_where (rows t))),
                  sql_max_ts (map Start_Time (filter time_where (rows t)))),
               states_covered =
                 length (remdups (map State (filter state_where (rows t)))),
               top_states = top_states_rows (rows t),
               severity_distribution = severity_dist_rows (rows t)\<rparr>)"

section \<open>The analyzer and its connection\<close>

text \<open>
  The engine outside the analyzer: what \<^verbatim>\<open>read_csv_auto\<close> makes of the data file
  (\<open>None\<close> when ingestion fails), the number the next connection gets, and the open
  connections, each with its \<^verbatim>\<open>accidents\<close> table once that has been created.
\<close>

record store =
  source :: "table option"
  fresh :: nat
  live :: "nat \<Rightarrow> table option option"

record analyzer =
  conn :: "nat option"
  data_loaded :: bool

text \<open>\<^verbatim>\<open>DataLoader.__init__\<close> and \<^verbatim>\<open>RiskAnalyzer.__init__\<close>.\<close>

definition init_analyzer :: "bool \<Rightarrow> error + analyzer" where
  "init_analyzer path_exists =
     (if \<not> path_exists then Inl FileNotFound
      else Inr \<lparr>conn = None, data_loaded = False\<rparr>)"

definition connect :: "store \<Rightarrow> nat \<times> store" where
  "connect s = (fresh s, s\<lparr>fresh := Suc (fresh s), live := (live s)(fresh s \<mapsto> None)\<rparr>)"

definition close_conn :: "nat \<Rightarrow> store \<Rightarrow> store" where
  "close_conn c s = s\<lparr>live := (live s)(c := None)\<rparr>"

definition load_to_duckdb :: "store \<Rightarrow> (error + nat) \<times> store" where
  "load_to_duckdb s =
     (let (c, s1) = connect s
      in case source s1 of
           Some t \<Rightarrow> (Inr c, s1\<lparr>live := (live s1)(c \<mapsto> Some t)\<rparr>)
         | None \<Rightarrow> (Inl LoadError, close_conn c s1))"

definition ensure_data_loaded :: "analyzer \<Rightarrow> store \<Rightarrow> (error + unit) \<times> analyzer \<times> store" where
  "ensure_data_loaded a s =
     (if \<not> data_loaded a then
        (case load_to_duckdb s of
           (Inl e, s') \<Rightarrow> (Inl e, a, s')
         | (Inr c, s') \<Rightarrow> (Inr (), a\<lparr>conn := Some c, data_loaded := True\<rparr>, s'))
      else (Inr (), a, s))"

definition close :: "analyzer \<Rightarrow> store \<Rightarrow> analyzer \<times> store" where
  "close a s =
     (case conn a of
        Some c \<Rightarrow> (a\<lparr>data_loaded := False\<rparr>, close_conn c s)
      | None \<Rightarrow> (a, s))"

text \<open>\<^verbatim>\<open>self.conn.execute(query)\<close>: the query runs on the connection's table.\<close>

definition execute :: "store \<Rightarrow> nat option \<Rightarrow> (table \<Rightarrow> error + 'a) \<Rightarrow> error + 'a" where
  "execute s c q =
     (case c of
        None \<Rightarrow> Inl ConnectionError
      | Some n \<Rightarrow> (case live s n of Some (Some t) \<Rightarrow> q t | _ \<Rightarrow> Inl ConnectionError))"

text \<open>
  Every analysis method has this shape: \<^verbatim>\<open>self._ensure_data_loaded()\<close>, then its
  queries on \<^verbatim>\<open>self.conn\<close>; an exception of either leaves the method at once.
\<close>

definition with_data ::
  "(table \<Rightarrow> error + 'a) \<Rightarrow> analyzer \<Rightarrow> store \<Rightarrow> (error + 'a) \<times> analyzer \<times> store" where
  "with_data q a s =
     (case ensure_data_loaded a s of
        (Inl e, a', s') \<Rightarrow> (Inl e, a', s')
      | (Inr _, a', s') \<Rightarrow> (execute s' (conn a') q, a', s'))"

definition compute_risk ::
  "engine \<Rightarrow> string list \<Rightarrow> bool \<Rightarrow> bool \<Rightarrow> analyzer \<Rightarrow> store
     \<Rightarrow> (error + risk_row list) \<times> analyzer \<times> store" where
  "compute_risk eng levels include_weather include_time =
     with_data (\<lambda>t. compute_risk_query eng t levels include_weather include_time)"

definition compute_state_risk_rates ::
  "analyzer \<Rightarrow> store \<Rightarrow> (error + rate_row list) \<times> analyzer \<times> store" where
  "compute_state_risk_rates = with_data state_risk_rates_query"

definition compute_temporal_patterns ::
  "analyzer \<Rightarrow> store \<Rightarrow> (error + temporal_patterns) \<times> analyzer \<times> store" where
  "compute_temporal_patterns = with_data temporal_patterns_query"

definition compute_weather_risk ::
  "analyzer \<Rightarrow> store \<Rightarrow> (error + weather_row list) \<times> analyzer \<times> store" where
  "compute_weather_risk = with_data weather_risk_query"

definition generate_summary_report ::
  "analyzer \<Rightarrow> store \<Rightarrow> (error + summary_report) \<times> analyzer \<times> store" where
  "generate_summary_report = with_data summary_report_query"

section \<open>The loader's validation\<close>

definition key_columns :: "string list" where
  "key_columns = [''ID'', ''Start_Time'', ''State'', ''Severity'', ''Weather_Condition'']"

text \<open>
  \<^verbatim>\<open>"col" IS NULL OR "col" = ''\<close> on one cell: true on \<^verbatim>\<open>NULL\<close>, the comparison
  on a string; on a number or a timestamp the engine cannot convert \<^verbatim>\<open>''\<close> and the
  query fails (\<open>None\<close>).
\<close>

fun cell_missing :: "cell \<Rightarrow> bool option" where
  "cell_missing None = Some True"
| "cell_missing (Some (VStr s)) = Some (s = '''')"
| "cell_missing (Some (VInt _)) = None"
| "cell_missing (Some (VTime _)) = None"

definition missing_query :: "table \<Rightarrow> string \<Rightarrow> error + nat" where
  "missing_query t c =
     (let ms = map (\<lambda>r. cell_missing (cell_of r c)) (rows t)
      in if None \<in> set ms then Inl (ConversionError c)
         else Inr (length (filter (\<lambda>m. m = Some True) ms)))"

record missing_entry =
  missing_count :: nat
  missing_percentage :: rat

text \<open>
  The loop over the key columns, filling the \<^verbatim>\<open>missing_values\<close> dictionary in
  order. Nothing in the loop is caught: a failure of the query leaves the method, and so
  does \<^verbatim>\<open>(missing / total_rows) * 100\<close>, Python's true division, on a zero divisor.
\<close>

fun missing_loop ::
  "table \<Rightarrow> string list \<Rightarrow> (string \<times> missing_entry) list
     \<Rightarrow> error + (string \<times> missing_entry) list" where
  "missing_loop t [] acc = Inr acc"
| "missing_loop t (c # cs) acc =
     (if c \<in> set (columns t) then
        (case missing_query t c of
           Inl e \<Rightarrow> Inl e
         | Inr missing \<Rightarrow>
             (let total_rows = length (rows t)
              in if total_rows = 0 then Inl ZeroDivisionError
                 else missing_loop t cs
                        (acc @ [(c, \<lparr>missing_count = missing,
                                     missing_percentage =
                                       of_nat missing / of_nat total_rows * 100\<rparr>)])))
      else missing_loop t cs acc)"

definition sql_min_int :: "int option list \<Rightarrow> int option" where
  "sql_min_int xs = (case non_null xs of [] \<Rightarrow> None | v # vs \<Rightarrow> Some (fold min vs v))"

definition sql_max_int :: "int option list \<Rightarrow> int option" where
  "sql_max_int xs = (case non_null xs of [] \<Rightarrow> None | v # vs \<Rightarrow> Some (fold max vs v))"

record validation_results =
  total_rows :: nat
  missing_values :: "(string \<times> missing_entry) list"
  data_types :: "(string \<times> string) list"
  value_ranges :: "(string \<times> string) list"
  v_date_range :: "(timestamp option \<times> timestamp option) option"
  severity_range :: "(int option \<times> int option \<times> nat) option"
  unique_states :: "nat option"

text \<open>
  \<^verbatim>\<open>validate_data\<close> on what \<^verbatim>\<open>read_csv_auto\<close> makes of the file (\<open>None\<close> when
  ingestion fails). Each of the last three checks sits in its own \<^verbatim>\<open>try\<close>, whose
  \<^verbatim>\<open>except\<close> stores \<^verbatim>\<open>None\<close>; the query inside fails when its column is unknown.
\<close>

definition validate_data :: "table option \<Rightarrow> error + validation_results" where
  "validate_data file =
     (case file of
        None \<Rightarrow> Inl LoadError
      | Some t \<Rightarrow>
          (case missing_loop t key_columns [] of
             Inl e \<Rightarrow> Inl e
           | Inr mv \<Rightarrow>
               Inr \<lparr>total_rows = length (rows t),
                    missing_values = mv,
                    data_types = [],
                    value_ranges = [],
                    v_date_range =
                      (if find_column (columns t) ''Start_Time'' \<noteq> None
                       then Some (sql_min_ts (map Start_Time (filter time_where (rows t))),
                                  sql_max_ts (map Start_Time (filter time_where (rows t))))
                       else None),
                    severity_range =
                      (if find_column (columns t) ''Severity'' \<noteq> None
                       then Some (sql_min_int (map Severity (filter severity_where (rows t))),
                                  sql_max_int (map Severity (filter severity_where (rows t))),
                                  length (remdups (map Severity (filter severity_where (rows t)))))
                       else None),
                    unique_states =
                      (if find_column (columns t) ''State'' \<noteq> None
                       then Some (length (remdups (map State (filter state_where (rows t)))))
                       else None)\<rparr>))"

section \<open>Concrete data\<close>

text \<open>
  The two-row dataset of the specification's scenario: both rows in year 2020 and state
  CA, the rest of each timestamp left open.
\<close>

definition scenario_row :: "month \<Rightarrow> int \<Rightarrow> int \<Rightarrow> int \<Rightarrow> string \<Rightarrow> row" where
  "scenario_row m d h sev w =
     \<lparr>ID = None,
      Start_Time = Some \<lparr>ts_year = 2020, ts_month = m, ts_day = d, ts_hour = h,
                         ts_minute = 0, ts_second = 0\<rparr>,
      State = Some ''CA'', Severity = Some sev, Weather_Condition = Some w,
      other = (\<lambda>_. None)\<rparr>"

definition scenario_table :: "month \<Rightarrow> int \<Rightarrow> int \<Rightarrow> month \<Rightarrow> int \<Rightarrow> int \<Rightarrow> table" where
  "scenario_table m1 d1 h1 m2 d2 h2 =
     \<lparr>columns = key_columns,
      rows = [scenario_row m1 d1 h1 2 ''Clear'', scenario_row m2 d2 h2 4 ''Rain'']\<rparr>"

definition new_analyzer :: analyzer where
  "new_analyzer = \<lparr>conn = None, data_loaded = False\<rparr>"

definition store_of :: "table option \<Rightarrow> store" where
  "store_of f = \<lparr>source = f, fresh = 0, live = (\<lambda>_. None)\<rparr>"

text \<open>A header-only file and a file with rows, both with \<^verbatim>\<open>State\<close> as only column.\<close>

definition header_only :: table where
  "header_only = \<lparr>columns = [''State''], rows = []\<rparr>"

definition state_only :: table where
  "state_only =
     \<lparr>columns = [''State''],
      rows = [scenario_row Jan 1 8 2 ''Clear'', scenario_row Feb 2 9 4 ''Rain'']\<rparr>"

text \<open>An analyzer loaded on connection 0 and the engine it is loaded in; a query that
  counts rows.\<close>

definition count_rows :: "table \<Rightarrow> error + nat" where
  "count_rows t = Inr (length (rows t))"

definition loaded_analyzer :: analyzer where
  "loaded_analyzer = \<lparr>conn = Some 0, data_loaded = True\<rparr>"

definition loaded_store :: store where
  "loaded_store =
     \<lparr>source = Some state_only, fresh = 1, live = (\<lambda>_. None)(0 \<mapsto> Some state_only)\<rparr>"

text \<open>
  The season of a month in the specification's words: Dec/Jan/Feb are Winter,
  Mar/Apr/May Spring, Jun/Jul/Aug Summer, Sep/Oct/Nov Fall.
\<close>

definition spec_season :: "month \<Rightarrow> string" where
  "spec_season m =
     (case m of
        Dec \<Rightarrow> ''Winter'' | Jan \<Rightarrow> ''Winter'' | Feb \<Rightarrow> ''Winter''
      | Mar \<Rightarrow> ''Spring'' | Apr \<Rightarrow> ''Spring'' | May \<Rightarrow> ''Spring''
      | Jun \<Rightarrow> ''Summer'' | Jul \<Rightarrow> ''Summer'' | Aug \<Rightarrow> ''Summer''
      | Sep \<Rightarrow> ''Fall'' | Oct \<Rightarrow> ''Fall'' | Nov \<Rightarrow> ''Fall'')"

text \<open>A row whose state is \<^verbatim>\<open>NULL\<close>, with a timestamp, a severity and a weather
  condition, and a relation that holds just this row.\<close>

definition null_state_row :: row where
  "null_state_row =
     \<lparr>ID = Some ''A-1'',
      Start_Time = Some \<lparr>ts_year = 2020, ts_month = Jan, ts_day = 1, ts_hour = 8,
                         ts_minute = 0, ts_second = 0\<rparr>,
      State = None, Severity = Some 2, Weather_Condition = Some ''Clear'',
      other = (\<lambda>_. None)\<rparr>"

definition null_state_table :: table where
  "null_state_table = \<lparr>columns = key_columns, rows = [null_state_row]\<rparr>"

text \<open>
  Two engines: both reserve no word; the first returns tied rows in the order of their
  groups, the second puts the group of mean severity 4 first among tied rows.
\<close>

definition first_seen_engine :: engine where
  "first_seen_engine =
     \<lparr>reserved = (\<lambda>_. False), other_query = (\<lambda>_ _ _. Inr []), tie = (\<lambda>_ _. 0)\<rparr>"

definition other_order_engine :: engine where
  "other_order_engine =
     \<lparr>reserved = (\<lambda>_. False), other_query = (\<lambda>_ _ _. Inr []),
      tie = (\<lambda>_ g. if avg_severity g = Some 4 then 0 else 1)\<rparr>"

text \<open>A file with one row and the columns \<^verbatim>\<open>Start_Time\<close>, \<^verbatim>\<open>State\<close>,
  \<^verbatim>\<open>Severity\<close>: no \<^verbatim>\<open>ID\<close>, no \<^verbatim>\<open>Weather_Condition\<close>.\<close>

definition three_column_table :: table where
  "three_column_table =
     \<lparr>columns = [''Start_Time'', ''State'', ''Severity''],
      rows = [scenario_row Jan 1 8 2 ''Clear'']\<rparr>"

section \<open>Properties\<close>

lemmas analyzer_eval_simps =
  with_data_def ensure_data_loaded_def load_to_duckdb_def connect_def close_conn_def
  execute_def close_def

subsection \<open>The load state of the analyzer\<close>

text \<open>
  C7. Once loaded, every operation runs its query on the handle the analyzer holds and
  leaves the analyzer and the engine as they were: nothing is reloaded and no operation
  unloads. The first operation of an unloaded analyzer loads: with a loadable file it
  leaves the analyzer loaded on a new handle that holds the table, and the next operation
  runs on that same handle. When loading fails the error is the operation's result, the
  analyzer is unchanged (still unloaded) and the connection opened for the attempt is
  closed. \<^verbatim>\<open>close\<close> on an analyzer that holds a handle closes it and makes the analyzer
  unloaded, and the next operation loads again, on a new handle.
\<close>

theorem load_state_machine:
  fixes q :: "table \<Rightarrow> error + 'a" and q' :: "table \<Rightarrow> error + 'b"
  shows
  "(data_loaded a \<longrightarrow> with_data q a s = (execute s (conn a) q, a, s)) \<and>
   (\<not> data_loaded a \<and> source s = Some t \<longrightarrow>
      (case with_data q a s of
         (r, a', s') \<Rightarrow>
           r = q t \<and> data_loaded a' \<and> conn a' = Some (fresh s) \<and>
           live s' (fresh s) = Some (Some t) \<and>
           with_data q' a' s' = (q' t, a', s'))) \<and>
   (\<not> data_loaded a \<and> source s = None \<longrightarrow>
      (case with_data q a s of
         (r, a', s') \<Rightarrow>
           r = Inl LoadError \<and> a' = a \<and> live s' (fresh s) = None \<and>
           (\<forall>c. c \<noteq> fresh s \<longrightarrow> live s' c = live s c))) \<and>
   (conn a = Some c \<longrightarrow>
      (case close a s of
         (a', s') \<Rightarrow>
           \<not> data_loaded a' \<and> live s' c = None \<and>
           (source s = Some t \<longrightarrow>
              (case with_data q a' s' of
                 (r, a'', s'') \<Rightarrow>
                   r = q t \<and> data_loaded a'' \<and> conn a'' = Some (fresh s) \<and>
                   live s'' (fresh s) = Some (Some t))))) \<and>
   (conn a = None \<longrightarrow> close a s = (a, s))"
  by (auto simp: analyzer_eval_simps Let_def split: prod.splits option.splits)

theorem load_state_machine_witness:
  "with_data count_rows loaded_analyzer loaded_store = (Inr 2, loaded_analyzer, loaded_store) \<and>
   with_data count_rows new_analyzer (store_of (Some state_only)) =
     (Inr 2, loaded_analyzer, loaded_store) \<and>
   fst (with_data count_rows new_analyzer (store_of None)) = Inl LoadError \<and>
   fst (snd (with_data count_rows new_analyzer (store_of None))) = new_analyzer \<and>
   \<not> data_loaded (fst (close loaded_analyzer loaded_store)) \<and>
   close new_analyzer (store_of None) = (new_analyzer, store_of None)"
proof -
  have h1: "data_loaded loaded_analyzer"
    by (simp add: loaded_analyzer_def)
  have h2: "\<not> data_loaded new_analyzer \<and> source (store_of (Some state_only)) = Some state_only"
    by (simp add: new_analyzer_def store_of_def)
  have h3: "\<not> data_loaded new_analyzer \<and> source (store_of None) = None"
    by (simp add: new_analyzer_def store_of_def)
  have h4: "conn loaded_analyzer = Some 0"
    by (simp add: loaded_analyzer_def)
  have h5: "conn new_analyzer = None"
    by (simp add: new_analyzer_def)
  have e: "execute loaded_store (conn loaded_analyzer) count_rows = Inr 2"
    by (simp add: execute_def loaded_store_def loaded_analyzer_def count_rows_def state_only_def)
  have c1: "with_data count_rows loaded_analyzer loaded_store =
      (Inr 2, loaded_analyzer, loaded_store)"
    using load_state_machine [where a = loaded_analyzer and s = loaded_store
        and q = count_rows and q' = count_rows] h1 e
    by simp
  obtain r a' s' where w: "with_data count_rows new_analyzer (store_of (Some state_only)) = (r, a', s')"
    by (cases "with_data count_rows new_analyzer (store_of (Some state_only))") auto
  have "r = Inr 2 \<and> data_loaded a' \<and> conn a' = Some 0"
    using load_state_machine [where a = new_analyzer and s = "store_of (Some state_only)"
        and q = count_rows and q' = count_rows and t = state_only] h2 w
    by (simp add: count_rows_def state_only_def store_of_def)
  have c2: "with_data count_rows new_analyzer (store_of (Some state_only)) =
     (Inr 2, loaded_analyzer, loaded_store)"
    by (simp add: analyzer_eval_simps new_analyzer_def store_of_def loaded_analyzer_def
        loaded_store_def count_rows_def state_only_def)
  obtain r3 a3 s3 where w3: "with_data count_rows new_analyzer (store_of None) = (r3, a3, s3)"
    by (cases "with_data count_rows new_analyzer (store_of None)") auto
  have c3: "fst (with_data count_rows new_analyzer (store_of None)) = Inl LoadError \<and>
     fst (snd (with_data count_rows new_analyzer (store_of None))) = new_analyzer"
    using load_state_machine [where a = new_analyzer and s = "store_of None"
        and q = count_rows and q' = count_rows] h3 w3
    by simp
  obtain a4 s4 where w4: "close loaded_analyzer loaded_store = (a4, s4)"
    by (cases "close loaded_analyzer loaded_store") auto
  have c4: "\<not> data_loaded (fst (close loaded_analyzer loaded_store))"
    using load_state_machine [where a = loaded_analyzer and s = loaded_store
        and q = count_rows and q' = count_rows and c = 0] h4 w4
    by simp
  have c5: "close new_analyzer (store_of None) = (new_analyzer, store_of None)"
    using load_state_machine [where a = new_analyzer and s = "store_of None"
        and q = count_rows and q' = count_rows] h5
    by simp
  from c1 c2 c3 c4 c5 show ?thesis by simp
qed

subsection \<open>Grouping\<close>

lemma find_append_Some:
  "find P xs = Some x \<Longrightarrow> find P (xs @ ys) = Some x"
  by (induction xs) (auto split: if_splits)

lemma find_exists: "\<exists>x\<in>set xs. P x \<Longrightarrow> \<exists>x. find P xs = Some x \<and> P x \<and> x \<in> set xs"
  by (induction xs) auto

lemma set_first_seen [simp]: "set (first_seen xs) = set xs"
  by (simp add: first_seen_def)

lemma distinct_first_seen [simp]: "distinct (first_seen xs)"
  by (simp add: first_seen_def)

lemma map_fst_group_by: "map fst (group_by key rs) = first_seen (map key rs)"
  by (simp add: group_by_def comp_def)

lemma group_by_iff:
  "(k, g) \<in> set (group_by key rs) \<longleftrightarrow> k \<in> key ` set rs \<and> g = filter (\<lambda>r. key r = k) rs"
  by (auto simp: group_by_def)

lemma length_filter_disj:
  "(\<And>x. x \<in> set xs \<Longrightarrow> \<not> (P x \<and> Q x)) \<Longrightarrow>
     length (filter P xs) + length (filter Q xs) = length (filter (\<lambda>x. P x \<or> Q x) xs)"
  by (induction xs) auto

lemma sum_length_filter_keys:
  "distinct ks \<Longrightarrow>
     sum_list (map (\<lambda>k. length (filter (\<lambda>r. key r = k) rs)) ks) =
       length (filter (\<lambda>r. key r \<in> set ks) rs)"
proof (induction ks)
  case Nil
  then show ?case by simp
next
  case (Cons k ks)
  then have "length (filter (\<lambda>r. key r = k) rs) + length (filter (\<lambda>r. key r \<in> set ks) rs) =
      length (filter (\<lambda>r. key r = k \<or> key r \<in> set ks) rs)"
    by (intro length_filter_disj) auto
  with Cons show ?case by simp
qed

lemma sum_group_lengths:
  "sum_list (map (\<lambda>p. length (snd p)) (group_by key rs)) = length rs"
proof -
  have "sum_list (map (\<lambda>p. length (snd p)) (group_by key rs)) =
      sum_list (map (\<lambda>k. length (filter (\<lambda>r. key r = k) rs)) (first_seen (map key rs)))"
    by (simp add: group_by_def comp_def)
  also have "\<dots> = length (filter (\<lambda>r. key r \<in> set (first_seen (map key rs))) rs)"
    by (rule sum_length_filter_keys) simp
  also have "\<dots> = length rs"
    by simp
  finally show ?thesis .
qed

subsection \<open>Severity rates by year and state\<close>

lemma distinct_map_sort_key:
  "distinct (map f (sort_key g xs)) = distinct (map f xs)"
proof -
  have "mset (map f (sort_key g xs)) = mset (map f xs)"
    by simp
  then show ?thesis
    by (rule mset_eq_imp_distinct_iff)
qed

lemma is_severe_iff: "is_severe r \<longleftrightarrow> (\<exists>v. Severity r = Some v \<and> 3 \<le> v)"
  by (simp add: is_severe_def split: option.splits)

lemma rate_groups_keys:
  "map (\<lambda>g. (rate_year g, rate_state g)) (rate_groups rs) =
     first_seen (map (\<lambda>r. (extract_year (Start_Time r), State r)) (filter risk_where rs))"
  by (simp add: rate_groups_def comp_def case_prod_beta flip: map_fst_group_by)

lemma rate_groups_member:
  assumes "g \<in> set (rate_groups rs)"
  shows "total_accidents g =
           length (filter (\<lambda>r. risk_where r \<and> extract_year (Start_Time r) = rate_year g \<and>
                               State r = rate_state g) rs) \<and>
         severe_accidents g =
           length (filter (\<lambda>r. risk_where r \<and> extract_year (Start_Time r) = rate_year g \<and>
                               State r = rate_state g \<and> (\<exists>v. Severity r = Some v \<and> 3 \<le> v)) rs) \<and>
         severe_accident_rate g = of_nat (severe_accidents g) * 100 / of_nat (total_accidents g) \<and>
         0 < total_accidents g \<and> severe_accidents g \<le> total_accidents g"
proof -
  let ?key = "\<lambda>r. (extract_year (Start_Time r), State r)"
  from assms obtain k grp where
    kg: "(k, grp) \<in> set (group_by ?key (filter risk_where rs))" and
    g: "g = \<lparr>rate_year = fst k, rate_state = snd k, total_accidents = length grp,
             severe_accidents = length (filter is_severe grp),
             severe_accident_rate =
               of_nat (length (filter is_severe grp)) * 100 / of_nat (length grp)\<rparr>"
    by (auto simp: rate_groups_def)
  from kg have grp: "grp = filter (\<lambda>r. ?key r = k) (filter risk_where rs)" and ne: "grp \<noteq> []"
    by (auto simp: group_by_iff filter_empty_conv)
  have 1: "grp = filter (\<lambda>r. risk_where r \<and> extract_year (Start_Time r) = fst k \<and>
                               State r = snd k) rs"
    unfolding grp by (cases k) (simp add: conj_commute)
  have 2: "filter is_severe grp =
      filter (\<lambda>r. risk_where r \<and> extract_year (Start_Time r) = fst k \<and>
                               State r = snd k \<and> (\<exists>v. Severity r = Some v \<and> 3 \<le> v)) rs"
    unfolding 1 by (simp add: is_severe_iff)
  have 3: "length (filter is_severe grp) \<le> length grp"
    by (rule length_filter_le)
  have t: "total_accidents g = length grp" and sv: "severe_accidents g = length (filter is_severe grp)"
    and rt: "severe_accident_rate g = of_nat (length (filter is_severe grp)) * 100 / of_nat (length grp)"
    and ry: "rate_year g = fst k" and rs: "rate_state g = snd k"
    by (simp_all add: g)
  have "0 < length grp"
    using ne by simp
  then show ?thesis
    unfolding t sv rt ry rs using 3 by (simp flip: 1 2)
qed

lemma rate_bounds:
  fixes s n :: nat
  assumes "0 < n" "s \<le> n"
  shows "0 \<le> (of_nat s * 100 / of_nat n :: rat)" "(of_nat s * 100 / of_nat n :: rat) \<le> 100"
proof -
  show "0 \<le> (of_nat s * 100 / of_nat n :: rat)"
    by simp
  have "(of_nat s :: rat) \<le> of_nat n"
    using assms by simp
  then show "(of_nat s * 100 / of_nat n :: rat) \<le> 100"
    using assms by (simp add: divide_le_eq)
qed


lemmas rate_eval_simps =
  state_risk_rates_query_def rate_groups_def group_by_def first_seen_def risk_where_def
  rate_order_def nulls_last_def extract_year_def is_severe_def key_columns_def


subsection \<open>Temporal patterns\<close>

lemma aggregate_keys: "map agg_key (aggregate key rs) = first_seen (map key rs)"
  by (simp add: aggregate_def comp_def case_prod_beta flip: map_fst_group_by)

lemma aggregate_member:
  assumes "a \<in> set (aggregate key rs)"
  shows "agg_key a \<in> key ` set rs"
    and "agg_count a = length (filter (\<lambda>r. key r = agg_key a) rs)"
    and "agg_avg a = sql_avg (map Severity (filter (\<lambda>r. key r = agg_key a) rs))"
    and "0 < agg_count a"
proof -
  from assms obtain k g where kg: "(k, g) \<in> set (group_by key rs)"
    and a: "a = \<lparr>agg_key = k, agg_count = length g, agg_avg = sql_avg (map Severity g)\<rparr>"
    by (auto simp: aggregate_def)
  from kg have g: "g = filter (\<lambda>r. key r = k) rs" and k: "k \<in> key ` set rs" and ne: "g \<noteq> []"
    by (auto simp: group_by_iff filter_empty_conv)
  show "agg_key a \<in> key ` set rs" using k by (simp add: a)
  show "agg_count a = length (filter (\<lambda>r. key r = agg_key a) rs)" by (simp add: a g)
  show "agg_avg a = sql_avg (map Severity (filter (\<lambda>r. key r = agg_key a) rs))" by (simp add: a g)
  show "0 < agg_count a" using ne by (simp add: a)
qed

lemma sum_aggregate_counts: "sum_list (map agg_count (aggregate key rs)) = length rs"
proof -
  have "map agg_count (aggregate key rs) = map (\<lambda>p. length (snd p)) (group_by key rs)"
    by (simp add: aggregate_def comp_def case_prod_beta)
  then show ?thesis
    by (simp add: sum_group_lengths)
qed

lemma sorted_count_desc:
  "sorted (map (\<lambda>a. - int (f a)) xs) \<Longrightarrow> sorted_wrt (\<lambda>a b. f b \<le> f a) xs"
  by (induction xs) auto

lemma sorted_nulls_last_strict:
  assumes "sorted (map (\<lambda>a. nulls_last (f a)) xs)" "distinct (map f xs)"
    "\<forall>a\<in>set xs. f a \<noteq> None"
  shows "sorted_wrt (\<lambda>a b. \<exists>x y. f a = Some x \<and> f b = Some y \<and> x < y) xs"
  using assms
proof (induction xs)
  case Nil
  then show ?case by simp
next
  case (Cons a xs)
  have "\<exists>x y. f a = Some x \<and> f b = Some y \<and> x < y" if b: "b \<in> set xs" for b
  proof -
    from Cons.prems(3) b obtain x y where xy: "f a = Some x" "f b = Some y"
      by auto
    from Cons.prems(1) b have "nulls_last (f a) \<le> nulls_last (f b)"
      by auto
    with xy have "x \<le> y"
      by (simp add: nulls_last_def)
    moreover from Cons.prems(2) b have "f a \<noteq> f b"
      by auto
    ultimately show ?thesis using xy by auto
  qed
  with Cons show ?case by auto
qed

lemma season_case_spec: "season_case (Some (month_num m)) = Some (spec_season m)"
  by (cases m) (simp_all add: season_case_def spec_season_def)

lemma spec_season_cases:
  "spec_season m \<in> {''Winter'', ''Spring'', ''Summer'', ''Fall''}"
  by (cases m) (simp_all add: spec_season_def)

lemma sum_list_map_sort_key:
  fixes f :: "'a \<Rightarrow> 'b::comm_monoid_add"
  shows "sum_list (map f (sort_key g xs)) = sum_list (map f xs)"
proof -
  have "sum_mset (mset (map f (sort_key g xs))) = sum_mset (mset (map f xs))"
    by simp
  then show ?thesis
    by (simp only: sum_mset_sum_list)
qed

lemma sorted_time_pattern:
  assumes "\<And>r. Start_Time r \<noteq> None \<Longrightarrow> key r \<noteq> None"
  shows "sorted_wrt (\<lambda>a b. \<exists>x y. agg_key a = Some x \<and> agg_key b = Some y \<and> x < y)
           (sort_key (\<lambda>a. nulls_last (agg_key a)) (aggregate key (filter time_where rs)))"
proof (rule sorted_nulls_last_strict)
  let ?xs = "sort_key (\<lambda>a. nulls_last (agg_key a)) (aggregate key (filter time_where rs))"
  show "sorted (map (\<lambda>a. nulls_last (agg_key a)) ?xs)"
    by (rule sorted_sort_key)
  show "distinct (map agg_key ?xs)"
    by (simp add: distinct_map_sort_key aggregate_keys)
  show "\<forall>a\<in>set ?xs. agg_key a \<noteq> None"
  proof
    fix a assume "a \<in> set ?xs"
    then have "a \<in> set (aggregate key (filter time_where rs))"
      by simp
    from aggregate_member(1) [OF this] obtain r where
      "r \<in> set rs" "time_where r" "agg_key a = key r"
      by auto
    with assms show "agg_key a \<noteq> None"
      by (simp add: time_where_def)
  qed
qed



subsection \<open>Multi-dimensional risk\<close>

lemma same_name_sym: "same_name a b = same_name b a"
  by (auto simp: same_name_def)

lemma ident_start_no_space: "ident_start c \<Longrightarrow> c \<noteq> CHR '' ''"
  by (auto simp: ident_start_def)

lemma ident_char_no_space: "ident_char c \<Longrightarrow> c \<noteq> CHR '' ''"
  by (auto simp: ident_char_def dest: ident_start_no_space)

lemma is_identifier_no_space: "is_identifier s \<Longrightarrow> CHR '' '' \<notin> set s"
proof (cases s)
  case Nil
  then show ?thesis by simp
next
  case (Cons c cs)
  assume "is_identifier s"
  with Cons have "ident_start c" "\<forall>x\<in>set cs. ident_char x"
    by (simp_all add: is_identifier_def list_all_iff)
  then have "c \<noteq> CHR '' ''" "\<forall>x\<in>set cs. x \<noteq> CHR '' ''"
    by (auto dest: ident_start_no_space ident_char_no_space)
  with Cons show ?thesis by auto
qed

lemma after_as_no_space: "CHR '' '' \<notin> set s \<Longrightarrow> after_as acc s = acc @ s"
  by (induction s arbitrary: acc) auto

lemma after_as_identifier: "is_identifier s \<Longrightarrow> after_as [] s = s"
  using after_as_no_space [OF is_identifier_no_space, of s "[]"] by simp

lemma derived_not_identifier:
  "\<not> is_identifier year_col" "\<not> is_identifier month_col" "\<not> is_identifier hour_col"
  by (simp_all add: is_identifier_def year_col_def month_col_def hour_col_def
      ident_char_def ident_start_def)

lemma after_as_derived:
  "after_as [] year_col = ''year''" "after_as [] month_col = ''month''"
  "after_as [] hour_col = ''hour''"
  by (simp_all add: year_col_def month_col_def hour_col_def)

lemma find_append_None: "find P xs = None \<Longrightarrow> find P (xs @ ys) = find P ys"
  by (induction xs) (auto split: if_splits)

lemma no_shadow_columns:
  assumes "\<not> list_ex (\<lambda>c. list_ex (same_name c) [''year'', ''month'', ''hour'']) cols"
  shows "find_column cols ''year'' = None" "find_column cols ''month'' = None"
    "find_column cols ''hour'' = None"
  using assms by (auto simp: find_column_def find_None_iff list_ex_iff)

lemma derived_names_differ:
  "\<not> same_name ''year'' ''month''" "\<not> same_name ''year'' ''hour''"
  "\<not> same_name ''month'' ''hour''" "same_name ''year'' ''year''"
  "same_name ''month'' ''month''" "same_name ''hour'' ''hour''"
  by (simp_all add: same_name_def lower_char_def)

lemma parse_select_derived:
  "parse_select year_col = (ExtractYear, Some ''year'')"
  "parse_select month_col = (ExtractMonth, Some ''month'')"
  "parse_select hour_col = (ExtractHour, Some ''hour'')"
  by (simp_all add: parse_select_def year_col_def month_col_def hour_col_def)

lemma parse_select_identifier:
  "is_identifier l \<Longrightarrow> parse_select l = (Col l, None)"
  using derived_not_identifier by (auto simp: parse_select_def)

lemma bind_group_item:
  assumes sh: "\<not> list_ex (\<lambda>c. list_ex (same_name c) [''year'', ''month'', ''hour'']) cols"
    and mid: "\<forall>l\<in>set mid. is_identifier l \<and> \<not> list_ex (same_name l) own_names"
    and T: "T = [] \<or> T = [month_col, hour_col]"
    and item: "item \<in> set (year_col # mid @ T)"
  shows "bind_group cols (map parse_select (year_col # mid @ T)) (after_as [] item) =
           bind_expr cols (fst (parse_select item))"
proof -
  let ?sel = "map parse_select (year_col # mid @ T)"
  note nc = no_shadow_columns [OF sh]
  have pm: "\<forall>l\<in>set mid. parse_select l = (Col l, None)"
    using mid by (simp add: parse_select_identifier)
  have midnone: "find (has_alias n) (map parse_select mid) = None" for n
    using pm by (simp add: find_None_iff has_alias_def)
  from item consider "item = year_col" | "item \<in> set mid" | "item \<in> set T"
    by auto
  then show ?thesis
  proof cases
    case 1
    have "find (has_alias ''year'') ?sel = Some (ExtractYear, Some ''year'')"
      by (simp add: parse_select_derived has_alias_def derived_names_differ)
    then show ?thesis
      using 1 nc(1) by (simp add: bind_group_def after_as_derived parse_select_derived)
  next
    case 2
    with mid have id: "is_identifier item" and own: "\<not> list_ex (same_name item) own_names"
      by auto
    from own have o: "\<not> same_name ''year'' item" "\<not> same_name ''month'' item"
      "\<not> same_name ''hour'' item"
      by (simp_all add: own_names_def same_name_sym [of _ item])
    have "\<forall>s\<in>set ?sel. \<not> has_alias item s"
      using T pm o by (auto simp: has_alias_def parse_select_derived)
    then have "find (has_alias item) ?sel = None"
      by (simp only: find_None_iff) blast
    then show ?thesis
      using id by (simp add: bind_group_def after_as_identifier parse_select_identifier
          bind_expr_def split: option.splits)
  next
    case 3
    with T have T': "T = [month_col, hour_col]" and it: "item = month_col \<or> item = hour_col"
      by auto
    have m: "find (has_alias ''month'') ?sel = Some (ExtractMonth, Some ''month'')"
      unfolding T' using midnone [of "''month''"]
      by (simp add: parse_select_derived has_alias_def derived_names_differ find_append_None)
    have h: "find (has_alias ''hour'') ?sel = Some (ExtractHour, Some ''hour'')"
      unfolding T' using midnone [of "''hour''"]
      by (simp add: parse_select_derived has_alias_def derived_names_differ find_append_None)
    from it show ?thesis
      using m h nc by (auto simp: bind_group_def after_as_derived parse_select_derived)
  qed
qed

lemma weather_columnish:
  "is_identifier ''Weather_Condition'' \<and> \<not> list_ex (same_name ''Weather_Condition'') own_names"
  by (simp add: is_identifier_def ident_start_def ident_char_def own_names_def same_name_def
      lower_char_def)

lemma compute_risk_query_fragment:
  assumes "in_fragment eng (columns t) levels"
  shows "compute_risk_query eng t levels iw it =
     (case require_names (columns t) [''Start_Time'', ''State'', ''Severity''] of
        Inl e \<Rightarrow> Inl e
      | Inr _ \<Rightarrow>
          (case bind_all (map (\<lambda>item. bind_expr (columns t) (fst (parse_select item)))
                  (group_cols levels iw it)) of
             Inl e \<Rightarrow> Inl e
           | Inr es \<Rightarrow> Inr (order_by_risk eng (risk_groups (map eval_expr es) (rows t)))))"
proof -
  let ?mid = "levels @ (if iw \<and> ''Weather_Condition'' \<notin> set levels
                        then [''Weather_Condition''] else [])"
  let ?T = "if it then [month_col, hour_col] else []"
  let ?gc = "group_cols levels iw it"
  let ?sel = "map parse_select ?gc"
  have gc: "?gc = year_col # ?mid @ ?T"
    by (simp add: group_cols_def Let_def)
  have sh: "\<not> list_ex (\<lambda>c. list_ex (same_name c) [''year'', ''month'', ''hour'']) (columns t)"
    using assms by (simp add: in_fragment_def)
  have mid: "\<forall>l\<in>set ?mid. is_identifier l \<and> \<not> list_ex (same_name l) own_names"
    using assms weather_columnish by (auto simp: in_fragment_def plain_def list_all_iff)
  have T: "?T = [] \<or> ?T = [month_col, hour_col]"
    by simp
  have g: "map (bind_group (columns t) ?sel) (group_by_cols ?gc) =
      map (\<lambda>item. bind_expr (columns t) (fst (parse_select item))) ?gc"
    unfolding group_by_cols_def map_map comp_def
  proof (rule map_cong [OF refl])
    fix item assume "item \<in> set ?gc"
    then have "item \<in> set (year_col # ?mid @ ?T)"
      by (simp only: gc)
    from bind_group_item [OF sh mid T this]
    show "bind_group (columns t) ?sel (after_as [] item) =
        bind_expr (columns t) (fst (parse_select item))"
      by (simp only: gc)
  qed
  have s: "map (\<lambda>s. bind_expr (columns t) (fst s)) ?sel =
      map (\<lambda>item. bind_expr (columns t) (fst (parse_select item))) ?gc"
    by (simp add: comp_def)
  show ?thesis
    unfolding compute_risk_query_def Let_def g s
    using assms by (simp split: sum.splits)
qed

lemma risk_groups_keys:
  "map keys (risk_groups fs rs) =
     first_seen (map (\<lambda>r. map (\<lambda>f. f r) fs) (filter risk_where rs))"
  by (simp add: risk_groups_def comp_def case_prod_beta flip: map_fst_group_by)

lemma length_non_null: "\<forall>x\<in>set xs. x \<noteq> None \<Longrightarrow> length (non_null xs) = length xs"
  by (induction xs) (auto simp: non_null_def)

lemma risk_groups_member:
  assumes "g \<in> set (risk_groups fs rs)"
  shows "keys g \<in> (\<lambda>r. map (\<lambda>f. f r) fs) ` set (filter risk_where rs)"
    and "accident_count g =
           length (filter (\<lambda>r. risk_where r \<and> map (\<lambda>f. f r) fs = keys g) rs)"
    and "0 < accident_count g"
    and "avg_severity g =
           Some (of_int (sum_list (non_null (map Severity
                   (filter (\<lambda>r. risk_where r \<and> map (\<lambda>f. f r) fs = keys g) rs))))
                 / of_nat (accident_count g))"
proof -
  let ?key = "\<lambda>r. map (\<lambda>f. f r) fs"
  from assms obtain k grp where kg: "(k, grp) \<in> set (group_by ?key (filter risk_where rs))"
    and g: "g = \<lparr>keys = k, accident_count = length grp, avg_severity = sql_avg (map Severity grp)\<rparr>"
    by (auto simp: risk_groups_def)
  from kg have grp: "grp = filter (\<lambda>r. ?key r = k) (filter risk_where rs)"
    and k: "k \<in> ?key ` set (filter risk_where rs)" and ne: "grp \<noteq> []"
    by (auto simp: group_by_iff filter_empty_conv)
  have kk: "keys g = k" and ac: "accident_count g = length grp"
    and av: "avg_severity g = sql_avg (map Severity grp)"
    by (simp_all add: g)
  have 1: "filter (\<lambda>r. risk_where r \<and> ?key r = k) rs = grp"
    by (simp add: grp)
  show "keys g \<in> ?key ` set (filter risk_where rs)"
    using k by (simp only: kk)
  show "accident_count g = length (filter (\<lambda>r. risk_where r \<and> ?key r = keys g) rs)"
    by (simp only: kk ac 1)
  show "0 < accident_count g"
    using ne by (simp add: ac)
  have "\<forall>x\<in>set (map Severity grp). x \<noteq> None"
    by (auto simp: grp risk_where_def)
  then have l: "length (non_null (map Severity grp)) = length grp"
    using length_non_null [of "map Severity grp"] by simp
  with ne have "non_null (map Severity grp) \<noteq> []"
    by auto
  then have "sql_avg (map Severity grp) =
      Some (of_int (sum_list (non_null (map Severity grp))) / of_nat (length grp))"
    using l by (simp add: sql_avg_def)
  then show "avg_severity g =
           Some (of_int (sum_list (non_null (map Severity
                   (filter (\<lambda>r. risk_where r \<and> ?key r = keys g) rs))))
                 / of_nat (accident_count g))"
    by (simp only: kk ac av 1)
qed

lemma sorted_risk_order:
  assumes "sorted (map risk_order xs)" "\<forall>g\<in>set xs. year_of (keys g) \<noteq> None"
  shows "sorted_wrt (\<lambda>a b. \<exists>x y. year_of (keys a) = Some x \<and> year_of (keys b) = Some y \<and>
                          (x < y \<or> (x = y \<and> accident_count b \<le> accident_count a))) xs"
  using assms
proof (induction xs)
  case Nil
  then show ?case by simp
next
  case (Cons a xs)
  have "\<exists>x y. year_of (keys a) = Some x \<and> year_of (keys b) = Some y \<and>
               (x < y \<or> (x = y \<and> accident_count b \<le> accident_count a))"
    if b: "b \<in> set xs" for b
  proof -
    from Cons.prems(2) b obtain x y where
      xy: "year_of (keys a) = Some x" "year_of (keys b) = Some y"
      by auto
    from Cons.prems(1) b have "risk_order a \<le> risk_order b"
      by auto
    with xy have "x < y \<or> (x = y \<and> accident_count b \<le> accident_count a)"
      by (auto simp: risk_order_def nulls_last_def)
    with xy show ?thesis by blast
  qed
  with Cons show ?case by auto
qed

lemmas temporal_eval_simps =
  temporal_patterns_query_def aggregate_def group_by_def first_seen_def time_where_def
  nulls_last_def extract_hour_def extract_month_def extract_dow_def day_of_week_def
  dow_offset_def season_case_def sql_avg_def non_null_def key_columns_def

subsection \<open>Weather risk\<close>

lemma window_rows_Nil [simp]: "window_rows [] = []"
  by (simp add: window_rows_def)

lemma window_rows_maps:
  "map weather_rank (window_rows p) = [1 ..< Suc (length p)]"
  "map w_count (window_rows p) = map agg_count (sort_key (\<lambda>g. - int (agg_count g)) p)"
  "map w_state (window_rows p) = map (\<lambda>g. fst (agg_key g)) (sort_key (\<lambda>g. - int (agg_count g)) p)"
  "map w_condition (window_rows p) =
     map (\<lambda>g. snd (agg_key g)) (sort_key (\<lambda>g. - int (agg_count g)) p)"
  "map state_percentage (window_rows p) =
     map (\<lambda>g. of_nat (agg_count g) * 100 / of_nat (sum_list (map agg_count p)))
       (sort_key (\<lambda>g. - int (agg_count g)) p)"
proof -
  let ?sp = "sort_key (\<lambda>g. - int (agg_count g)) p"
  let ?ns = "[1 ..< Suc (length p)]"
  have l: "length ?sp = length ?ns"
    by (simp del: upt_Suc)
  have f: "map fst (zip ?sp ?ns) = ?sp" and s: "map snd (zip ?sp ?ns) = ?ns"
    using l by (simp_all only: map_fst_zip map_snd_zip)
  show "map weather_rank (window_rows p) = ?ns"
    using s by (simp add: window_rows_def Let_def comp_def case_prod_beta del: upt_Suc)
  have "map w_count (window_rows p) = map agg_count (map fst (zip ?sp ?ns))"
    by (simp add: window_rows_def Let_def comp_def case_prod_beta)
  then show "map w_count (window_rows p) = map agg_count ?sp"
    by (simp only: f)
  have "map w_state (window_rows p) = map (\<lambda>g. fst (agg_key g)) (map fst (zip ?sp ?ns))"
    by (simp add: window_rows_def Let_def comp_def case_prod_beta)
  then show "map w_state (window_rows p) = map (\<lambda>g. fst (agg_key g)) ?sp"
    by (simp only: f)
  have "map w_condition (window_rows p) = map (\<lambda>g. snd (agg_key g)) (map fst (zip ?sp ?ns))"
    by (simp add: window_rows_def Let_def comp_def case_prod_beta)
  then show "map w_condition (window_rows p) = map (\<lambda>g. snd (agg_key g)) ?sp"
    by (simp only: f)
  have "map state_percentage (window_rows p) =
      map (\<lambda>g. of_nat (agg_count g) * 100 / of_nat (sum_list (map agg_count p)))
        (map fst (zip ?sp ?ns))"
    by (simp add: window_rows_def Let_def comp_def case_prod_beta)
  then show "map state_percentage (window_rows p) =
     map (\<lambda>g. of_nat (agg_count g) * 100 / of_nat (sum_list (map agg_count p))) ?sp"
    by (simp only: f)
qed

lemma length_window_rows [simp]: "length (window_rows p) = length p"
  using arg_cong [OF window_rows_maps(1), of length p] by (simp del: upt_Suc)

lemma window_rows_nth:
  assumes "i < length p"
  shows "weather_rank (window_rows p ! i) = Suc i"
    and "w_count (window_rows p ! i) = agg_count (sort_key (\<lambda>g. - int (agg_count g)) p ! i)"
proof -
  have "weather_rank (window_rows p ! i) = map weather_rank (window_rows p) ! i"
    using assms by simp
  also have "\<dots> = Suc i"
    unfolding window_rows_maps(1) using assms by (simp del: upt_Suc)
  finally show "weather_rank (window_rows p ! i) = Suc i" .
  have "w_count (window_rows p ! i) = map w_count (window_rows p) ! i"
    using assms by simp
  also have "\<dots> = agg_count (sort_key (\<lambda>g. - int (agg_count g)) p ! i)"
    unfolding window_rows_maps(2) using assms by simp
  finally show "w_count (window_rows p ! i) =
      agg_count (sort_key (\<lambda>g. - int (agg_count g)) p ! i)" .
qed

lemma window_rows_rank_count:
  assumes "r \<in> set (window_rows p)" "r' \<in> set (window_rows p)"
    "weather_rank r < weather_rank r'"
  shows "w_count r' \<le> w_count r"
proof -
  let ?sp = "sort_key (\<lambda>g. - int (agg_count g)) p"
  from assms(1,2) obtain i j where
    i: "i < length p" "window_rows p ! i = r" and j: "j < length p" "window_rows p ! j = r'"
    by (auto simp: in_set_conv_nth)
  from assms(3) have "i < j"
    using window_rows_nth(1) [OF i(1)] window_rows_nth(1) [OF j(1)] i(2) j(2) by simp
  moreover have "sorted (map (\<lambda>g. - int (agg_count g)) ?sp)"
    by (rule sorted_sort_key)
  ultimately have "map (\<lambda>g. - int (agg_count g)) ?sp ! i \<le> map (\<lambda>g. - int (agg_count g)) ?sp ! j"
    using j(1) by (intro sorted_nth_mono) simp_all
  then have "agg_count (?sp ! j) \<le> agg_count (?sp ! i)"
    using i(1) j(1) by simp
  then show ?thesis
    using window_rows_nth(2) [OF i(1)] window_rows_nth(2) [OF j(1)] i(2) j(2) by simp
qed

lemma window_rows_rank_inj:
  assumes "r \<in> set (window_rows p)" "r' \<in> set (window_rows p)"
    "weather_rank r = weather_rank r'"
  shows "r = r'"
proof -
  from assms(1,2) obtain i j where
    i: "i < length p" "window_rows p ! i = r" and j: "j < length p" "window_rows p ! j = r'"
    by (auto simp: in_set_conv_nth)
  from assms(3) have "i = j"
    using window_rows_nth(1) [OF i(1)] window_rows_nth(1) [OF j(1)] i(2) j(2) by simp
  with i j show ?thesis by simp
qed

lemma window_rows_member:
  assumes "r \<in> set (window_rows p)"
  shows "\<exists>g\<in>set p. w_state r = fst (agg_key g) \<and> w_condition r = snd (agg_key g) \<and>
           w_count r = agg_count g \<and>
           state_percentage r =
             of_nat (agg_count g) * 100 / of_nat (sum_list (map agg_count p))"
proof -
  from assms obtain g n where
    "(g, n) \<in> set (zip (sort_key (\<lambda>g. - int (agg_count g)) p) [1 ..< Suc (length p)])"
    and r: "r = \<lparr>w_state = fst (agg_key g), w_condition = snd (agg_key g),
                 w_count = agg_count g, w_avg = agg_avg g,
                 state_percentage =
                   of_nat (agg_count g) * 100 / of_nat (sum_list (map agg_count p)),
                 weather_rank = n\<rparr>"
    by (auto simp: window_rows_def Let_def simp del: upt_Suc)
  then have "g \<in> set p"
    by (auto dest: set_zip_leftD)
  with r show ?thesis by auto
qed

lemma concat_map_single:
  "distinct ss \<Longrightarrow>
     concat (map (\<lambda>s'. if s' = s then X else []) ss) = (if s \<in> set ss then X else [])"
  by (induction ss) auto

lemma filter_weather_windows:
  "filter (\<lambda>r. w_state r = s) (weather_windows rs) =
     window_rows (filter (\<lambda>g. fst (agg_key g) = s) (weather_groups rs))"
proof -
  let ?gs = "weather_groups rs"
  let ?P = "\<lambda>s. filter (\<lambda>g. fst (agg_key g) = s) ?gs"
  let ?ss = "first_seen (map (\<lambda>g. fst (agg_key g)) ?gs)"
  have one: "filter (\<lambda>r. w_state r = s) (window_rows (?P s')) =
      (if s' = s then window_rows (?P s) else [])" for s'
  proof (cases "s' = s")
    case True
    have "\<forall>r\<in>set (window_rows (?P s)). w_state r = s"
      by (auto dest!: window_rows_member)
    then show ?thesis
      using True by simp
  next
    case False
    have "\<forall>r\<in>set (window_rows (?P s')). w_state r \<noteq> s"
      using False by (auto dest!: window_rows_member)
    then show ?thesis
      using False by (simp add: filter_empty_conv)
  qed
  have "filter (\<lambda>r. w_state r = s) (weather_windows rs) =
      concat (map (\<lambda>s'. filter (\<lambda>r. w_state r = s) (window_rows (?P s'))) ?ss)"
    by (simp add: weather_windows_def Let_def filter_concat comp_def)
  also have "\<dots> = concat (map (\<lambda>s'. if s' = s then window_rows (?P s) else []) ?ss)"
    by (simp only: one)
  also have "\<dots> = (if s \<in> set ?ss then window_rows (?P s) else [])"
    by (rule concat_map_single) simp
  also have "\<dots> = window_rows (?P s)"
  proof (cases "s \<in> set ?ss")
    case True
    then show ?thesis by simp
  next
    case False
    then have "?P s = []"
      by (auto simp: filter_empty_conv)
    with False show ?thesis by simp
  qed
  finally show ?thesis .
qed

lemma weather_groups_keys:
  "map agg_key (weather_groups rs) =
     first_seen (map (\<lambda>r. (State r, Weather_Condition r)) (filter weather_where rs))"
  by (simp add: weather_groups_def aggregate_keys)

lemma partition_member_iff:
  "k \<in> set (map agg_key (filter (\<lambda>g. fst (agg_key g) = s) (weather_groups rs))) \<longleftrightarrow>
     fst k = s \<and> k \<in> (\<lambda>r. (State r, Weather_Condition r)) ` set (filter weather_where rs)"
proof -
  have ks: "set (map agg_key (weather_groups rs)) =
      (\<lambda>r. (State r, Weather_Condition r)) ` set (filter weather_where rs)"
    by (simp only: weather_groups_keys set_first_seen set_map)
  show ?thesis
  proof
    assume "k \<in> set (map agg_key (filter (\<lambda>g. fst (agg_key g) = s) (weather_groups rs)))"
    then obtain g where g: "g \<in> set (weather_groups rs)" "fst (agg_key g) = s" "k = agg_key g"
      by auto
    from g(1,3) have "k \<in> set (map agg_key (weather_groups rs))"
      by simp
    with ks g(2,3) show "fst k = s \<and>
        k \<in> (\<lambda>r. (State r, Weather_Condition r)) ` set (filter weather_where rs)"
      by simp
  next
    assume a: "fst k = s \<and>
        k \<in> (\<lambda>r. (State r, Weather_Condition r)) ` set (filter weather_where rs)"
    with ks have "k \<in> set (map agg_key (weather_groups rs))"
      by simp
    then obtain g where "g \<in> set (weather_groups rs)" "agg_key g = k"
      by auto
    with a show "k \<in> set (map agg_key (filter (\<lambda>g. fst (agg_key g) = s) (weather_groups rs)))"
      by force
  qed
qed

lemma partition_keys_distinct:
  "distinct (map agg_key (filter (\<lambda>g. fst (agg_key g) = s) (weather_groups rs)))"
  by (rule distinct_map_filter) (simp add: weather_groups_keys)

lemma partition_conditions:
  "distinct (map (\<lambda>g. snd (agg_key g)) (filter (\<lambda>g. fst (agg_key g) = s) (weather_groups rs)))"
  "set (map (\<lambda>g. snd (agg_key g)) (filter (\<lambda>g. fst (agg_key g) = s) (weather_groups rs))) =
     Weather_Condition ` set (filter (\<lambda>r. weather_where r \<and> State r = s) rs)"
proof -
  let ?P = "filter (\<lambda>g. fst (agg_key g) = s) (weather_groups rs)"
  have "map (\<lambda>g. snd (agg_key g)) ?P = map snd (map agg_key ?P)"
    by simp
  moreover have "distinct (map snd (map agg_key ?P))"
  proof (subst distinct_map, intro conjI)
    show "distinct (map agg_key ?P)"
      by (rule partition_keys_distinct)
    show "inj_on snd (set (map agg_key ?P))"
      by (rule inj_onI) (auto simp: prod_eq_iff)
  qed
  ultimately show "distinct (map (\<lambda>g. snd (agg_key g)) ?P)"
    by (simp only:)
  have "set (map (\<lambda>g. snd (agg_key g)) ?P) = snd ` set (map agg_key ?P)"
    by (simp add: image_image)
  also have "set (map agg_key ?P) =
      {k. fst k = s \<and> k \<in> (\<lambda>r. (State r, Weather_Condition r)) ` set (filter weather_where rs)}"
    using partition_member_iff [of _ s rs] by blast
  also have "snd ` {k. fst k = s \<and>
        k \<in> (\<lambda>r. (State r, Weather_Condition r)) ` set (filter weather_where rs)} =
      Weather_Condition ` set (filter (\<lambda>r. weather_where r \<and> State r = s) rs)"
    by force
  finally show "set (map (\<lambda>g. snd (agg_key g)) ?P) =
     Weather_Condition ` set (filter (\<lambda>r. weather_where r \<and> State r = s) rs)" .
qed

lemma partition_count:
  assumes "g \<in> set (filter (\<lambda>g. fst (agg_key g) = s) (weather_groups rs))"
  shows "agg_count g =
           length (filter (\<lambda>x. Weather_Condition x = snd (agg_key g))
                     (filter (\<lambda>r. weather_where r \<and> State r = s) rs))"
    and "0 < agg_count g"
proof -
  from assms have g: "g \<in> set (weather_groups rs)" and s: "fst (agg_key g) = s"
    by simp_all
  from g have a: "g \<in> set (aggregate (\<lambda>r. (State r, Weather_Condition r)) (filter weather_where rs))"
    by (simp add: weather_groups_def)
  from aggregate_member(2) [OF a] have
    "agg_count g = length (filter (\<lambda>r. (State r, Weather_Condition r) = agg_key g)
        (filter weather_where rs))" .
  also have "\<dots> = length (filter (\<lambda>x. Weather_Condition x = snd (agg_key g))
                     (filter (\<lambda>r. weather_where r \<and> State r = s) rs))"
    using s by (auto simp: prod_eq_iff intro!: arg_cong [where f = length] filter_cong)
  finally show "agg_count g =
           length (filter (\<lambda>x. Weather_Condition x = snd (agg_key g))
                     (filter (\<lambda>r. weather_where r \<and> State r = s) rs))" .
  from aggregate_member(4) [OF a] show "0 < agg_count g" .
qed

lemma partition_total:
  "sum_list (map agg_count (filter (\<lambda>g. fst (agg_key g) = s) (weather_groups rs))) =
     length (filter (\<lambda>r. weather_where r \<and> State r = s) rs)"
proof -
  let ?K = "\<lambda>r. (State r, Weather_Condition r)"
  let ?kept = "filter weather_where rs"
  let ?P = "filter (\<lambda>g. fst (agg_key g) = s) (weather_groups rs)"
  have "map agg_count ?P =
      map (\<lambda>k. length (filter (\<lambda>r. ?K r = k) ?kept)) (map agg_key ?P)"
  proof -
    have "agg_count g = length (filter (\<lambda>r. ?K r = agg_key g) ?kept)" if "g \<in> set ?P" for g
    proof -
      from that have "g \<in> set (aggregate ?K ?kept)"
        by (simp add: weather_groups_def)
      from aggregate_member(2) [OF this] show ?thesis .
    qed
    then show ?thesis by simp
  qed
  then have "sum_list (map agg_count ?P) =
      sum_list (map (\<lambda>k. length (filter (\<lambda>r. ?K r = k) ?kept)) (map agg_key ?P))"
    by (rule arg_cong)
  also have "\<dots> = length (filter (\<lambda>r. ?K r \<in> set (map agg_key ?P)) ?kept)"
    by (rule sum_length_filter_keys) (rule partition_keys_distinct)
  also have "\<dots> = length (filter (\<lambda>r. weather_where r \<and> State r = s) rs)"
    unfolding partition_member_iff
    by (auto intro!: arg_cong [where f = length] filter_cong)
  finally show ?thesis .
qed

lemma sum_percentages:
  fixes c :: "'a \<Rightarrow> nat"
  shows "sum_list (map (\<lambda>g. (of_nat (c g) * 100 / of_nat n :: rat)) xs) =
           of_nat (sum_list (map c xs)) * 100 / of_nat n"
  by (induction xs) (simp_all add: add_divide_distrib distrib_right)

lemma weather_state_rows:
  fixes rs :: "row list" and s :: "string option"
  defines "P \<equiv> filter (\<lambda>g. fst (agg_key g) = s) (weather_groups rs)"
  defines "kept \<equiv> filter (\<lambda>r. weather_where r \<and> State r = s) rs"
  defines "out \<equiv> filter (\<lambda>r. w_state r = s) (sort_key weather_order (weather_windows rs))"
  shows "mset (map weather_rank out) = mset [1 ..< Suc (card (Weather_Condition ` set kept))]"
    and "distinct (map w_condition out)"
    and "set (map w_condition out) = Weather_Condition ` set kept"
    and "\<forall>r\<in>set out. \<forall>r'\<in>set out. weather_rank r < weather_rank r' \<longrightarrow> w_count r' \<le> w_count r"
    and "\<forall>r\<in>set out. weather_rank r = 1 \<longrightarrow> (\<forall>r'\<in>set out. w_count r' \<le> w_count r)"
    and "\<forall>r\<in>set out.
           w_count r = length (filter (\<lambda>x. Weather_Condition x = w_condition r) kept) \<and>
           state_percentage r = of_nat (w_count r) * 100 / of_nat (length kept)"
    and "out \<noteq> [] \<longrightarrow> sum_list (map state_percentage out) = 100"
proof -
  let ?W = "window_rows P"
  let ?sp = "sort_key (\<lambda>g. - int (agg_count g)) P"
  have out: "out = sort_key weather_order ?W"
    by (simp add: out_def P_def filter_sort filter_weather_windows)
  have so: "set out = set ?W"
    by (simp add: out)
  have len: "length P = card (Weather_Condition ` set kept)"
  proof -
    have "card (set (map (\<lambda>g. snd (agg_key g)) P)) = length (map (\<lambda>g. snd (agg_key g)) P)"
      unfolding P_def by (rule distinct_card) (rule partition_conditions(1))
    moreover have "set (map (\<lambda>g. snd (agg_key g)) P) = Weather_Condition ` set kept"
      unfolding P_def kept_def by (rule partition_conditions(2))
    ultimately show ?thesis
      by (simp only: length_map)
  qed
  have tot: "sum_list (map agg_count P) = length kept"
    by (simp add: P_def kept_def partition_total)
  have "mset (map weather_rank out) = mset (map weather_rank ?W)"
    by (simp add: out)
  then show "mset (map weather_rank out) = mset [1 ..< Suc (card (Weather_Condition ` set kept))]"
    by (simp only: window_rows_maps(1) len)
  have dc: "distinct (map w_condition ?W)"
    unfolding window_rows_maps(4) distinct_map_sort_key P_def
    by (rule partition_conditions(1))
  then show "distinct (map w_condition out)"
    by (simp only: out distinct_map_sort_key)
  have "set (map w_condition out) = set (map w_condition ?W)"
    by (simp add: out)
  also have "\<dots> = set (map (\<lambda>g. snd (agg_key g)) P)"
    unfolding window_rows_maps(4) by simp
  also have "\<dots> = Weather_Condition ` set kept"
    unfolding P_def kept_def by (rule partition_conditions(2))
  finally show "set (map w_condition out) = Weather_Condition ` set kept" .
  show rc: "\<forall>r\<in>set out. \<forall>r'\<in>set out.
      weather_rank r < weather_rank r' \<longrightarrow> w_count r' \<le> w_count r"
    unfolding so by (blast intro: window_rows_rank_count)
  show "\<forall>r\<in>set out. weather_rank r = 1 \<longrightarrow> (\<forall>r'\<in>set out. w_count r' \<le> w_count r)"
  proof (intro ballI impI)
    fix r r' assume r: "r \<in> set out" "weather_rank r = 1" and r': "r' \<in> set out"
    from r' have "weather_rank r' \<in> set (map weather_rank ?W)"
      unfolding so by simp
    then have "1 \<le> weather_rank r'"
      unfolding window_rows_maps(1) by (simp del: upt_Suc)
    then consider "weather_rank r' = weather_rank r" | "weather_rank r < weather_rank r'"
      using r(2) by linarith
    then show "w_count r' \<le> w_count r"
    proof cases
      case 1
      with r(1) r' have "r' = r"
        unfolding so by (intro window_rows_rank_inj) simp_all
      then show ?thesis by simp
    next
      case 2
      with rc r(1) r' show ?thesis by blast
    qed
  qed
  show "\<forall>r\<in>set out.
           w_count r = length (filter (\<lambda>x. Weather_Condition x = w_condition r) kept) \<and>
           state_percentage r = of_nat (w_count r) * 100 / of_nat (length kept)"
  proof
    fix r assume "r \<in> set out"
    then have "r \<in> set ?W"
      by (simp only: so)
    from window_rows_member [OF this] obtain g where
      g: "g \<in> set P" "w_condition r = snd (agg_key g)" "w_count r = agg_count g"
         "state_percentage r = of_nat (agg_count g) * 100 / of_nat (sum_list (map agg_count P))"
      by blast
    from g(1) have "agg_count g =
        length (filter (\<lambda>x. Weather_Condition x = snd (agg_key g)) kept)"
      unfolding P_def kept_def by (rule partition_count(1))
    with g(2-4) show "w_count r =
          length (filter (\<lambda>x. Weather_Condition x = w_condition r) kept) \<and>
        state_percentage r = of_nat (w_count r) * 100 / of_nat (length kept)"
      by (simp add: tot)
  qed
  show "out \<noteq> [] \<longrightarrow> sum_list (map state_percentage out) = 100"
  proof
    assume "out \<noteq> []"
    then have "P \<noteq> []"
      by (auto simp: out)
    then obtain g where g: "g \<in> set P"
      by (cases P) auto
    then have "0 < agg_count g"
      unfolding P_def by (rule partition_count(2))
    moreover have "agg_count g \<le> sum_list (map agg_count P)"
      using g by (simp add: member_le_sum_list)
    ultimately have pos: "0 < length kept"
      unfolding tot by (rule less_le_trans)
    have "sum_list (map state_percentage out) = sum_list (map state_percentage ?W)"
      by (simp only: out sum_list_map_sort_key)
    also have "\<dots> = sum_list (map (\<lambda>g. (of_nat (agg_count g) * 100 / of_nat (length kept) :: rat)) P)"
      by (simp only: window_rows_maps(5) tot sum_list_map_sort_key)
    also have "\<dots> = of_nat (sum_list (map agg_count P)) * 100 / of_nat (length kept)"
      by (rule sum_percentages)
    also have "\<dots> = 100"
      unfolding tot using pos by simp
    finally show "sum_list (map state_percentage out) = 100" .
  qed
qed

text \<open>
  C3. With its three columns in the schema \<^verbatim>\<open>compute_weather_risk\<close> returns, and
  for every state: the ranks of the state's rows are a permutation of 1..k, where k is
  the number of distinct weather conditions among the kept rows of the state, one row per
  condition; a row with a smaller rank never has a smaller count, and the row of rank 1
  has the greatest count of the state; each row's count is the number of kept rows of the
  state with its condition and its percentage is that count times 100 over the number of
  kept rows of the state; so the percentages of a state that has rows add up to 100.
\<close>

theorem weather_risk_spec:
  assumes "set [''State'', ''Weather_Condition'', ''Severity''] \<subseteq> set (columns t)"
  shows "\<exists>res. weather_risk_query t = Inr res \<and>
     (\<forall>s. let rows_s = filter (\<lambda>r. w_state r = s) res;
              kept_s = filter (\<lambda>r. weather_where r \<and> State r = s) (rows t);
              k = card (Weather_Condition ` set kept_s)
          in mset (map weather_rank rows_s) = mset [1 ..< Suc k] \<and>
             distinct (map w_condition rows_s) \<and>
             set (map w_condition rows_s) = Weather_Condition ` set kept_s \<and>
             (\<forall>r\<in>set rows_s. \<forall>r'\<in>set rows_s.
                weather_rank r < weather_rank r' \<longrightarrow> w_count r' \<le> w_count r) \<and>
             (\<forall>r\<in>set rows_s. weather_rank r = 1 \<longrightarrow>
                (\<forall>r'\<in>set rows_s. w_count r' \<le> w_count r)) \<and>
             (\<forall>r\<in>set rows_s.
                w_count r = length (filter (\<lambda>x. Weather_Condition x = w_condition r) kept_s) \<and>
                state_percentage r = of_nat (w_count r) * 100 / of_nat (length kept_s)) \<and>
             (rows_s \<noteq> [] \<longrightarrow> sum_list (map state_percentage rows_s) = 100))"
proof (intro exI conjI allI)
  show "weather_risk_query t = Inr (sort_key weather_order (weather_windows (rows t)))"
    using assms by (simp add: weather_risk_query_def)
next
  fix s
  show "let rows_s = filter (\<lambda>r. w_state r = s)
                       (sort_key weather_order (weather_windows (rows t)));
              kept_s = filter (\<lambda>r. weather_where r \<and> State r = s) (rows t);
              k = card (Weather_Condition ` set kept_s)
          in mset (map weather_rank rows_s) = mset [1 ..< Suc k] \<and>
             distinct (map w_condition rows_s) \<and>
             set (map w_condition rows_s) = Weather_Condition ` set kept_s \<and>
             (\<forall>r\<in>set rows_s. \<forall>r'\<in>set rows_s.
                weather_rank r < weather_rank r' \<longrightarrow> w_count r' \<le> w_count r) \<and>
             (\<forall>r\<in>set rows_s. weather_rank r = 1 \<longrightarrow>
                (\<forall>r'\<in>set rows_s. w_count r' \<le> w_count r)) \<and>
             (\<forall>r\<in>set rows_s.
                w_count r = length (filter (\<lambda>x. Weather_Condition x = w_condition r) kept_s) \<and>
                state_percentage r = of_nat (w_count r) * 100 / of_nat (length kept_s)) \<and>
             (rows_s \<noteq> [] \<longrightarrow> sum_list (map state_percentage rows_s) = 100)"
    unfolding Let_def
    by (intro conjI weather_state_rows)
qed

theorem weather_risk_spec_witness:
  "\<exists>res. weather_risk_query (scenario_table Jan 1 8 Feb 2 9) = Inr res \<and>
     mset (map weather_rank (filter (\<lambda>r. w_state r = Some ''CA'') res)) = mset [1, 2] \<and>
     sum_list (map state_percentage (filter (\<lambda>r. w_state r = Some ''CA'') res)) = 100"
proof -
  let ?t = "scenario_table Jan 1 8 Feb 2 9"
  have c: "set [''State'', ''Weather_Condition'', ''Severity''] \<subseteq> set (columns ?t)"
    by (simp add: scenario_table_def key_columns_def)
  have k: "card (Weather_Condition `
      set (filter (\<lambda>r. weather_where r \<and> State r = Some ''CA'') (rows ?t))) = 2"
    by (simp add: scenario_table_def scenario_row_def weather_where_def)
  from weather_risk_spec [OF c] obtain res where
    res: "weather_risk_query ?t = Inr res" and
    a: "\<And>s. let rows_s = filter (\<lambda>r. w_state r = s) res;
              kept_s = filter (\<lambda>r. weather_where r \<and> State r = s) (rows ?t);
              k = card (Weather_Condition ` set kept_s)
          in mset (map weather_rank rows_s) = mset [1 ..< Suc k] \<and>
             distinct (map w_condition rows_s) \<and>
             set (map w_condition rows_s) = Weather_Condition ` set kept_s \<and>
             (\<forall>r\<in>set rows_s. \<forall>r'\<in>set rows_s.
                weather_rank r < weather_rank r' \<longrightarrow> w_count r' \<le> w_count r) \<and>
             (\<forall>r\<in>set rows_s. weather_rank r = 1 \<longrightarrow>
                (\<forall>r'\<in>set rows_s. w_count r' \<le> w_count r)) \<and>
             (\<forall>r\<in>set rows_s.
                w_count r = length (filter (\<lambda>x. Weather_Condition x = w_condition r) kept_s) \<and>
                state_percentage r = of_nat (w_count r) * 100 / of_nat (length kept_s)) \<and>
             (rows_s \<noteq> [] \<longrightarrow> sum_list (map state_percentage rows_s) = 100)"
    by blast
  let ?rows = "filter (\<lambda>r. w_state r = Some ''CA'') res"
  from a [of "Some ''CA''"] have
    m: "mset (map weather_rank ?rows) = mset [1 ..< Suc 2]" and
    p: "?rows \<noteq> [] \<longrightarrow> sum_list (map state_percentage ?rows) = 100"
    unfolding Let_def k by blast+
  from m have m2: "mset (map weather_rank ?rows) = mset [1, 2]"
    by (simp add: upt_rec)
  have "?rows \<noteq> []"
  proof
    assume e: "?rows = []"
    from m2 show False
      unfolding e by simp
  qed
  with p res m2 show ?thesis
    by blast
qed

subsection \<open>The two-row scenario\<close>

lemmas risk_eval_simps =
  group_cols_def year_col_def month_col_def hour_col_def parse_select_def bind_expr_def
  find_column_def same_name_def lower_char_def eval_expr_def cell_of_def risk_groups_def
  group_by_def first_seen_def risk_where_def sql_avg_def non_null_def risk_order_def
  year_of_def nulls_last_def extract_year_def extract_month_def extract_hour_def
  key_columns_def

lemma scenario_fragment:
  assumes "\<not> reserved eng ''State''" "\<not> reserved eng ''Severity''"
  shows "in_fragment eng key_columns [''State'', ''Severity'']"
  using assms
  by (simp add: in_fragment_def plain_def is_identifier_def ident_start_def ident_char_def
      own_names_def same_name_def lower_char_def key_columns_def)

lemma scenario_groups:
  "require_names key_columns [''Start_Time'', ''State'', ''Severity''] = Inr ()"
  "bind_all (map (\<lambda>item. bind_expr key_columns (fst (parse_select item)))
      (group_cols [''State'', ''Severity''] False False)) =
     Inr [ExtractYear, Col ''State'', Col ''Severity'']"
  "risk_groups [eval_expr ExtractYear, eval_expr (Col ''State''), eval_expr (Col ''Severity'')]
      [scenario_row m1 d1 h1 2 ''Clear'', scenario_row m2 d2 h2 4 ''Rain''] =
     [\<lparr>keys = [Some (VInt 2020), Some (VStr ''CA''), Some (VInt 2)],
        accident_count = 1, avg_severity = Some 2\<rparr>,
      \<lparr>keys = [Some (VInt 2020), Some (VStr ''CA''), Some (VInt 4)],
        accident_count = 1, avg_severity = Some 4\<rparr>]"
  by (simp_all add: risk_eval_simps scenario_row_def)

lemma scenario_query:
  assumes "\<not> reserved eng ''State''" "\<not> reserved eng ''Severity''"
  shows "compute_risk_query eng (scenario_table m1 d1 h1 m2 d2 h2)
           [''State'', ''Severity''] False False =
         Inr (order_by_risk eng
           [\<lparr>keys = [Some (VInt 2020), Some (VStr ''CA''), Some (VInt 2)],
              accident_count = 1, avg_severity = Some 2\<rparr>,
            \<lparr>keys = [Some (VInt 2020), Some (VStr ''CA''), Some (VInt 4)],
              accident_count = 1, avg_severity = Some 4\<rparr>])"
proof -
  have f: "in_fragment eng (columns (scenario_table m1 d1 h1 m2 d2 h2)) [''State'', ''Severity'']"
    using scenario_fragment [OF assms] by (simp add: scenario_table_def)
  have c: "columns (scenario_table m1 d1 h1 m2 d2 h2) = key_columns"
    and r: "rows (scenario_table m1 d1 h1 m2 d2 h2) =
      [scenario_row m1 d1 h1 2 ''Clear'', scenario_row m2 d2 h2 4 ''Rain'']"
    by (simp_all add: scenario_table_def)
  show ?thesis
    unfolding compute_risk_query_fragment [OF f] c r scenario_groups(1,2)
    by (simp add: scenario_groups(3))
qed

text \<open>
  Against C6 as stated: with an engine that returns the group of mean severity 4 first
  among tied rows, the call returns the row of severity 4 before the row of severity 2,
  which is not the order of the input.
\<close>

theorem two_row_tie_order:
  "fst (compute_risk other_order_engine [''State'', ''Severity''] False False new_analyzer
          (store_of (Some (scenario_table Jan 1 8 Feb 2 9)))) =
   Inr [\<lparr>keys = [Some (VInt 2020), Some (VStr ''CA''), Some (VInt 4)],
         accident_count = 1, avg_severity = Some 4\<rparr>,
        \<lparr>keys = [Some (VInt 2020), Some (VStr ''CA''), Some (VInt 2)],
         accident_count = 1, avg_severity = Some 2\<rparr>]"
proof -
  have r: "\<not> reserved other_order_engine ''State''" "\<not> reserved other_order_engine ''Severity''"
    by (simp_all add: other_order_engine_def)
  have "fst (compute_risk other_order_engine [''State'', ''Severity''] False False new_analyzer
          (store_of (Some (scenario_table Jan 1 8 Feb 2 9)))) =
      compute_risk_query other_order_engine (scenario_table Jan 1 8 Feb 2 9)
        [''State'', ''Severity''] False False"
    by (simp add: compute_risk_def analyzer_eval_simps new_analyzer_def store_of_def)
  also have "\<dots> = Inr (order_by_risk other_order_engine
           [\<lparr>keys = [Some (VInt 2020), Some (VStr ''CA''), Some (VInt 2)],
              accident_count = 1, avg_severity = Some 2\<rparr>,
            \<lparr>keys = [Some (VInt 2020), Some (VStr ''CA''), Some (VInt 4)],
              accident_count = 1, avg_severity = Some 4\<rparr>])"
    by (rule scenario_query [OF r])
  finally show ?thesis
    by (simp add: order_by_risk_def other_order_engine_def risk_order_def year_of_def
        nulls_last_def)
qed

text \<open>
  C6, amended. On the dataset of two rows (year 2020, CA, severity 2, Clear) and (year
  2020, CA, severity 4, Rain), \<^verbatim>\<open>compute_risk(['State', 'Severity'],
  include_weather=False, include_time=False)\<close> on a new analyzer returns exactly two
  rows, one for severity 2 with count 1 and mean severity 2 and one for severity 4 with
  count 1 and mean severity 4, both of year 2020; the two rows tie on year and count, and
  either may come first.
\<close>

theorem two_row_scenario:
  assumes "\<not> reserved eng ''State''" "\<not> reserved eng ''Severity''"
  shows "\<exists>res. fst (compute_risk eng [''State'', ''Severity''] False False new_analyzer
                   (store_of (Some (scenario_table m1 d1 h1 m2 d2 h2)))) = Inr res \<and>
           (res = [\<lparr>keys = [Some (VInt 2020), Some (VStr ''CA''), Some (VInt 2)],
                     accident_count = 1, avg_severity = Some 2\<rparr>,
                   \<lparr>keys = [Some (VInt 2020), Some (VStr ''CA''), Some (VInt 4)],
                     accident_count = 1, avg_severity = Some 4\<rparr>] \<or>
            res = [\<lparr>keys = [Some (VInt 2020), Some (VStr ''CA''), Some (VInt 4)],
                     accident_count = 1, avg_severity = Some 4\<rparr>,
                   \<lparr>keys = [Some (VInt 2020), Some (VStr ''CA''), Some (VInt 2)],
                     accident_count = 1, avg_severity = Some 2\<rparr>])"
proof -
  have "fst (compute_risk eng [''State'', ''Severity''] False False new_analyzer
                   (store_of (Some (scenario_table m1 d1 h1 m2 d2 h2)))) =
      compute_risk_query eng (scenario_table m1 d1 h1 m2 d2 h2) [''State'', ''Severity'']
        False False"
    by (simp add: compute_risk_def analyzer_eval_simps new_analyzer_def store_of_def)
  then show ?thesis
    unfolding scenario_query [OF assms]
    by (auto simp: order_by_risk_def)
qed

theorem two_row_scenario_witness:
  "fst (compute_risk first_seen_engine [''State'', ''Severity''] False False new_analyzer
          (store_of (Some (scenario_table Jan 1 8 Feb 2 9)))) =
   Inr [\<lparr>keys = [Some (VInt 2020), Some (VStr ''CA''), Some (VInt 2)],
         accident_count = 1, avg_severity = Some 2\<rparr>,
        \<lparr>keys = [Some (VInt 2020), Some (VStr ''CA''), Some (VInt 4)],
         accident_count = 1, avg_severity = Some 4\<rparr>]"
proof -
  have r: "\<not> reserved first_seen_engine ''State''" "\<not> reserved first_seen_engine ''Severity''"
    by (simp_all add: first_seen_engine_def)
  have q: "fst (compute_risk first_seen_engine [''State'', ''Severity''] False False new_analyzer
          (store_of (Some (scenario_table Jan 1 8 Feb 2 9)))) =
      Inr (order_by_risk first_seen_engine
           [\<lparr>keys = [Some (VInt 2020), Some (VStr ''CA''), Some (VInt 2)],
              accident_count = 1, avg_severity = Some 2\<rparr>,
            \<lparr>keys = [Some (VInt 2020), Some (VStr ''CA''), Some (VInt 4)],
              accident_count = 1, avg_severity = Some 4\<rparr>])"
    by (simp add: compute_risk_def analyzer_eval_simps new_analyzer_def store_of_def
        scenario_query [OF r])
  from two_row_scenario [OF r, of Jan 1 8 Feb 2 9] q show ?thesis
    by (auto simp: order_by_risk_def first_seen_engine_def risk_order_def year_of_def
        nulls_last_def)
qed


subsection \<open>Unknown dimensions\<close>

lemma bind_all_map:
  "bind_all (map f xs) =
     (case find (\<lambda>x. isl (f x)) xs of
        Some x \<Rightarrow> Inl (projl (f x))
      | None \<Rightarrow> Inr (map (\<lambda>x. projr (f x)) xs))"
  by (induction xs) (auto split: sum.splits option.splits)

lemma require_names_eq:
  "require_names cols cs =
     (case find (\<lambda>c. find_column cols c = None) cs of
        Some c \<Rightarrow> Inl (QueryError c)
      | None \<Rightarrow> Inr ())"
  by (induction cs) (auto split: option.splits)

lemma bind_expr_identifier:
  "is_identifier l \<Longrightarrow>
     bind_expr cols (fst (parse_select l)) =
       (case find_column cols l of Some c \<Rightarrow> Inr (Col c) | None \<Rightarrow> Inl (QueryError l))"
  by (simp add: parse_select_identifier bind_expr_def)

lemma bind_expr_derived:
  "find_column cols ''Start_Time'' \<noteq> None \<Longrightarrow>
     bind_expr cols (fst (parse_select year_col)) = Inr ExtractYear \<and>
     bind_expr cols (fst (parse_select month_col)) = Inr ExtractMonth \<and>
     bind_expr cols (fst (parse_select hour_col)) = Inr ExtractHour"
  by (auto simp: parse_select_derived bind_expr_def)

lemma sorted_map_fst_key:
  "sorted (map (\<lambda>x. (f x, g x)) xs) \<Longrightarrow> sorted (map f xs)"
  by (induction xs) (auto simp: less_eq_prod_def)

lemma compute_risk_query_unknown:
  assumes frag: "in_fragment eng (columns t) levels"
    and unk: "\<exists>l\<in>set levels. find_column (columns t) l = None"
  shows "\<exists>m. find_column (columns t) m = None \<and>
           ((\<forall>c\<in>set [''Start_Time'', ''State'', ''Severity''].
               find_column (columns t) c \<noteq> None) \<longrightarrow>
              find (\<lambda>l. find_column (columns t) l = None) levels = Some m) \<and>
           compute_risk_query eng t levels iw it = Inl (QueryError m)"
proof (cases "find (\<lambda>c. find_column (columns t) c = None) [''Start_Time'', ''State'', ''Severity'']")
  case (Some c)
  then have "find_column (columns t) c = None" and
    "\<not> (\<forall>c\<in>set [''Start_Time'', ''State'', ''Severity'']. find_column (columns t) c \<noteq> None)"
    by (auto split: if_splits)
  then show ?thesis
    using Some by (auto simp: compute_risk_query_fragment [OF frag] require_names_eq)
next
  case None
  then have st: "find_column (columns t) ''Start_Time'' \<noteq> None"
    by (auto split: if_splits)
  let ?B = "\<lambda>item. bind_expr (columns t) (fst (parse_select item))"
  from find_exists [OF unk] obtain m where
    m: "find (\<lambda>l. find_column (columns t) l = None) levels = Some m"
       "find_column (columns t) m = None" "m \<in> set levels"
    by blast
  have id: "\<forall>l\<in>set levels. is_identifier l"
    using frag by (simp add: in_fragment_def plain_def list_all_iff)
  have "find (\<lambda>l. isl (?B l)) levels = find (\<lambda>l. find_column (columns t) l = None) levels"
  proof (rule find_cong [OF refl])
    fix l assume "l \<in> set levels"
    with id show "isl (?B l) = (find_column (columns t) l = None)"
      by (simp add: bind_expr_identifier split: option.splits)
  qed
  with m(1) have fl: "find (\<lambda>l. isl (?B l)) levels = Some m"
    by simp
  have y: "\<not> isl (?B year_col)"
    using bind_expr_derived [OF st] by simp
  have "find (\<lambda>l. isl (?B l)) (group_cols levels iw it) = Some m"
    using fl y by (simp add: group_cols_def Let_def find_append_Some)
  moreover have "?B m = Inl (QueryError m)"
    using id m(2,3) by (simp add: bind_expr_identifier)
  ultimately have "bind_all (map ?B (group_cols levels iw it)) = Inl (QueryError m)"
    by (simp add: bind_all_map)
  then show ?thesis
    using None m(1,2) by (auto simp: compute_risk_query_fragment [OF frag] require_names_eq)
qed


lemmas fragment_eval_simps =
  in_fragment_def plain_def is_identifier_def ident_start_def ident_char_def own_names_def
  same_name_def lower_char_def find_column_def key_columns_def



subsection \<open>The grouping of \<^verbatim>\<open>compute_risk\<close>\<close>

lemma group_by_cols_plain:
  assumes "\<forall>l\<in>set levels. is_identifier l"
  shows "group_by_cols (group_cols levels iw it) =
           [''year''] @ levels @
           (if iw \<and> ''Weather_Condition'' \<notin> set levels then [''Weather_Condition''] else []) @
           (if it then [''month'', ''hour''] else [])"
proof -
  have "map (after_as []) levels = levels"
    using assms by (simp add: map_idI after_as_identifier)
  moreover have "after_as [] ''Weather_Condition'' = ''Weather_Condition''"
    using weather_columnish by (simp add: after_as_identifier)
  ultimately show ?thesis
    by (simp add: group_by_cols_def group_cols_def Let_def after_as_derived)
qed

lemma group_cols_Cons: "\<exists>rest. group_cols levels iw it = year_col # rest"
  by (simp add: group_cols_def Let_def)

lemma group_cols_bound:
  assumes frag: "in_fragment eng (columns t) levels"
    and st: "find_column (columns t) ''Start_Time'' \<noteq> None"
    and lev: "\<forall>l\<in>set levels. find_column (columns t) l \<noteq> None"
    and wea: "iw \<longrightarrow> find_column (columns t) ''Weather_Condition'' \<noteq> None"
  shows "\<forall>item\<in>set (group_cols levels iw it).
           \<not> isl (bind_expr (columns t) (fst (parse_select item)))"
proof
  fix item assume "item \<in> set (group_cols levels iw it)"
  then consider "item = year_col" | "item = month_col" | "item = hour_col"
    | "item \<in> set levels" | "item = ''Weather_Condition''" "iw"
    by (auto simp: group_cols_def Let_def split: if_splits)
  then show "\<not> isl (bind_expr (columns t) (fst (parse_select item)))"
  proof cases
    case 4
    with frag have "is_identifier item"
      by (simp add: in_fragment_def plain_def list_all_iff)
    with 4 lev show ?thesis
      by (auto simp: bind_expr_identifier split: option.splits)
  next
    case 5
    with wea weather_columnish show ?thesis
      by (auto simp: bind_expr_identifier split: option.splits)
  qed (use bind_expr_derived [OF st] in simp_all)
qed




subsection \<open>Validation\<close>

lemma missing_query_empty: "rows t = [] \<Longrightarrow> missing_query t c = Inr 0"
  by (simp add: missing_query_def)

lemma missing_loop_eq:
  "missing_loop t cs acc =
     (case find (\<lambda>c. c \<in> set (columns t) \<and> (isl (missing_query t c) \<or> rows t = [])) cs of
        Some c \<Rightarrow>
          (case missing_query t c of Inl e \<Rightarrow> Inl e | Inr _ \<Rightarrow> Inl ZeroDivisionError)
      | None \<Rightarrow>
          Inr (acc @ map (\<lambda>c. (c, \<lparr>missing_count = projr (missing_query t c),
                                    missing_percentage =
                                      of_nat (projr (missing_query t c))
                                        / of_nat (length (rows t)) * 100\<rparr>))
                       (filter (\<lambda>c. c \<in> set (columns t)) cs)))"
  by (induction cs arbitrary: acc) (auto simp: Let_def split: sum.splits option.splits)

text \<open>
  C10. The missing-value percentage is the missing count divided by the total row count
  with no guard: on a relation with no rows and at least one key column in its schema
  \<^verbatim>\<open>validate_data\<close> raises a division by zero instead of returning a report. So a
  report is returned for a schema with a key column only when the relation has a row,
  and it then holds, for each key column of the schema, the missing count and that count
  over the row count, times 100. With a row, the report is returned when the
  missing-value query of no key column of the schema fails.
\<close>

theorem validate_division_by_zero:
  "(rows t = [] \<and> (\<exists>c\<in>set key_columns. c \<in> set (columns t))
      \<longrightarrow> validate_data (Some t) = Inl ZeroDivisionError) \<and>
   (\<forall>rep. validate_data (Some t) = Inr rep \<longrightarrow>
      ((\<exists>c\<in>set key_columns. c \<in> set (columns t)) \<longrightarrow> rows t \<noteq> []) \<and>
      (\<forall>c\<in>set key_columns. c \<in> set (columns t) \<longrightarrow>
         (\<exists>m n. (c, m) \<in> set (missing_values rep) \<and> missing_query t c = Inr n \<and>
            missing_count m = n \<and>
            missing_percentage m = of_nat n / of_nat (length (rows t)) * 100))) \<and>
   (rows t \<noteq> [] \<and>
    (\<forall>c\<in>set key_columns. c \<in> set (columns t) \<longrightarrow> \<not> isl (missing_query t c))
      \<longrightarrow> (\<exists>rep. validate_data (Some t) = Inr rep))"
proof -
  let ?P = "\<lambda>c. c \<in> set (columns t) \<and> (isl (missing_query t c) \<or> rows t = [])"
  have zero: "validate_data (Some t) = Inl ZeroDivisionError"
    if a: "rows t = [] \<and> (\<exists>c\<in>set key_columns. c \<in> set (columns t))"
  proof -
    from a have "\<exists>x\<in>set key_columns. ?P x"
      by blast
    from find_exists [OF this] obtain x where "find ?P key_columns = Some x"
      by blast
    then show ?thesis
      using a by (simp add: validate_data_def missing_loop_eq missing_query_empty)
  qed
  have ret: "((\<exists>c\<in>set key_columns. c \<in> set (columns t)) \<longrightarrow> rows t \<noteq> []) \<and>
      (\<forall>c\<in>set key_columns. c \<in> set (columns t) \<longrightarrow>
         (\<exists>m n. (c, m) \<in> set (missing_values rep) \<and> missing_query t c = Inr n \<and>
            missing_count m = n \<and>
            missing_percentage m = of_nat n / of_nat (length (rows t)) * 100))"
    if rep: "validate_data (Some t) = Inr rep" for rep
  proof -
    from rep have n: "find ?P key_columns = None"
      by (auto simp: validate_data_def missing_loop_eq split: sum.splits option.splits)
    then have np: "\<forall>c\<in>set key_columns. \<not> ?P c"
      by (simp only: find_None_iff) blast
    have mv: "missing_values rep =
        map (\<lambda>c. (c, \<lparr>missing_count = projr (missing_query t c),
                       missing_percentage =
                         of_nat (projr (missing_query t c)) / of_nat (length (rows t)) * 100\<rparr>))
          (filter (\<lambda>c. c \<in> set (columns t)) key_columns)"
      using rep n by (auto simp: validate_data_def missing_loop_eq split: sum.splits)
    have "\<exists>m n. (c, m) \<in> set (missing_values rep) \<and> missing_query t c = Inr n \<and>
            missing_count m = n \<and>
            missing_percentage m = of_nat n / of_nat (length (rows t)) * 100"
      if c: "c \<in> set key_columns" "c \<in> set (columns t)" for c
    proof -
      from c np have "\<not> isl (missing_query t c)"
        by blast
      then obtain k where k: "missing_query t c = Inr k"
        by (cases "missing_query t c") auto
      let ?m = "\<lparr>missing_count = k,
                  missing_percentage = of_nat k / of_nat (length (rows t)) * 100\<rparr>"
      have "(c, ?m) \<in> set (missing_values rep)"
        unfolding mv using c k by (auto simp: image_iff)
      then show ?thesis
        using k by (intro exI [of _ ?m] exI [of _ k]) simp
    qed
    with np show ?thesis
      by blast
  qed
  have some: "\<exists>rep. validate_data (Some t) = Inr rep"
    if a: "rows t \<noteq> [] \<and>
      (\<forall>c\<in>set key_columns. c \<in> set (columns t) \<longrightarrow> \<not> isl (missing_query t c))"
  proof -
    from a have "find ?P key_columns = None"
      by (simp only: find_None_iff) blast
    then show ?thesis
      by (simp add: validate_data_def missing_loop_eq)
  qed
  from zero ret some show ?thesis
    by blast
qed


lemmas validate_eval_simps =
  validate_data_def key_columns_def missing_query_def cell_of_def same_name_def
  lower_char_def find_column_def scenario_row_def

theorem validate_division_by_zero_witness:
  "validate_data (Some header_only) = Inl ZeroDivisionError \<and>
   (\<exists>rep. validate_data (Some state_only) = Inr rep \<and>
      (\<exists>m. (''State'', m) \<in> set (missing_values rep) \<and> missing_count m = 0 \<and>
         missing_percentage m = 0))"
proof -
  have a: "rows header_only = [] \<and> (\<exists>c\<in>set key_columns. c \<in> set (columns header_only))"
    by (simp add: header_only_def key_columns_def)
  have q: "missing_query state_only ''State'' = Inr 0"
    by (simp add: state_only_def validate_eval_simps)
  have b: "rows state_only \<noteq> [] \<and>
      (\<forall>c\<in>set key_columns. c \<in> set (columns state_only) \<longrightarrow> \<not> isl (missing_query state_only c))"
    using q by (auto simp: state_only_def)
  have c: "''State'' \<in> set key_columns" "''State'' \<in> set (columns state_only)"
    by (simp_all add: state_only_def key_columns_def)
  from validate_division_by_zero [of header_only] a
  have 1: "validate_data (Some header_only) = Inl ZeroDivisionError"
    by blast
  from validate_division_by_zero [of state_only] b
  obtain rep where rep: "validate_data (Some state_only) = Inr rep"
    by blast
  with validate_division_by_zero [of state_only] c
  obtain m n where "(''State'', m) \<in> set (missing_values rep)"
    "missing_query state_only ''State'' = Inr n" "missing_count m = n"
    "missing_percentage m = of_nat n / of_nat (length (rows state_only)) * 100"
    by blast
  with q have "(''State'', m) \<in> set (missing_values rep) \<and> missing_count m = 0 \<and>
      missing_percentage m = 0"
    by simp
  with 1 rep show ?thesis
    by blast
qed

text \<open>
  C9, where the code departs from it. On a file with one row and the columns
  \<^verbatim>\<open>Start_Time\<close>, \<^verbatim>\<open>State\<close>, \<^verbatim>\<open>Severity\<close> (no \<^verbatim>\<open>ID\<close>, no
  \<^verbatim>\<open>Weather_Condition\<close>) \<^verbatim>\<open>validate_data\<close> returns no report: the missing-value
  query of \<^verbatim>\<open>Start_Time\<close> compares a timestamp with the empty string and fails,
  nothing in the loop catches the failure, and the validation fails as a whole.
\<close>

theorem validate_fails_on_typed_column:
  "validate_data (Some three_column_table) = Inl (ConversionError ''Start_Time'')"
  by (simp add: three_column_table_def validate_eval_simps)

subsection \<open>Which rows each operation leaves out\<close>

lemma sum_risk_counts:
  "sum_list (map accident_count (risk_groups fs rs)) = length (filter risk_where rs)"
proof -
  have "map accident_count (risk_groups fs rs) =
      map (\<lambda>p. length (snd p)) (group_by (\<lambda>r. map (\<lambda>f. f r) fs) (filter risk_where rs))"
    by (simp add: risk_groups_def comp_def case_prod_beta)
  then show ?thesis
    by (simp add: sum_group_lengths)
qed

lemma sum_rate_totals:
  "sum_list (map total_accidents (rate_groups rs)) = length (filter risk_where rs)"
proof -
  have "map total_accidents (rate_groups rs) =
      map (\<lambda>p. length (snd p))
        (group_by (\<lambda>r. (extract_year (Start_Time r), State r)) (filter risk_where rs))"
    by (simp add: rate_groups_def comp_def case_prod_beta)
  then show ?thesis
    by (simp add: sum_group_lengths)
qed

lemma sum_window_counts:
  "sum_list (map w_count (window_rows p)) = sum_list (map agg_count p)"
  by (simp only: window_rows_maps(2) sum_list_map_sort_key)

lemma sum_list_map_concat:
  fixes f :: "'a \<Rightarrow> nat"
  shows "sum_list (map f (concat xss)) = sum_list (map (\<lambda>xs. sum_list (map f xs)) xss)"
  by (induction xss) simp_all

lemma sum_weather_counts:
  "sum_list (map w_count (weather_windows rs)) = length (filter weather_where rs)"
proof -
  let ?gs = "weather_groups rs"
  let ?ss = "first_seen (map (\<lambda>g. fst (agg_key g)) ?gs)"
  let ?kept = "filter weather_where rs"
  have "sum_list (map w_count (weather_windows rs)) =
      sum_list (map (\<lambda>s. sum_list (map w_count
        (window_rows (filter (\<lambda>g. fst (agg_key g) = s) ?gs)))) ?ss)"
    by (simp add: weather_windows_def Let_def sum_list_map_concat comp_def)
  also have "\<dots> = sum_list (map (\<lambda>s. length (filter (\<lambda>r. State r = s) ?kept)) ?ss)"
    by (simp add: sum_window_counts partition_total conj_commute)
  also have "\<dots> = length (filter (\<lambda>r. State r \<in> set ?ss) ?kept)"
    by (rule sum_length_filter_keys) simp
  also have "\<dots> = length ?kept"
  proof -
    have "set ?ss = State ` set ?kept"
    proof -
      have "set ?ss = fst ` set (map agg_key ?gs)"
        by (simp add: image_image)
      also have "\<dots> = State ` set ?kept"
        by (simp only: weather_groups_keys set_first_seen set_map image_image fst_conv)
      finally show ?thesis .
    qed
    then have "\<forall>r\<in>set ?kept. State r \<in> set ?ss"
      by blast
    then show ?thesis
      by (simp only: filter_True)
  qed
  finally show ?thesis .
qed

lemma non_null_time_where:
  "non_null (map Start_Time (filter time_where rs)) = non_null (map Start_Time rs)"
  by (induction rs) (auto simp: non_null_def time_where_def)

lemma sql_min_max_time_where:
  "sql_min_ts (map Start_Time (filter time_where rs)) = sql_min_ts (map Start_Time rs)"
  "sql_max_ts (map Start_Time (filter time_where rs)) = sql_max_ts (map Start_Time rs)"
  by (simp_all add: sql_min_ts_def sql_max_ts_def non_null_time_where)

lemma top_states_member:
  assumes "(s, n) \<in> set (top_states_rows rs)"
  shows "s \<noteq> None \<and> s \<noteq> Some '''' \<and> n = length (filter (\<lambda>r. State r = s) rs)"
proof -
  from assms have "(s, n) \<in> set (map (\<lambda>(k, g). (k, length g))
      (group_by State (filter state_where rs)))"
    by (auto simp: top_states_rows_def dest: in_set_takeD)
  then obtain g where g: "(s, g) \<in> set (group_by State (filter state_where rs))" "n = length g"
    by auto
  then have s: "s \<in> State ` set (filter state_where rs)"
    and gg: "g = filter (\<lambda>r. State r = s) (filter state_where rs)"
    by (auto simp: group_by_iff)
  from s have v: "s \<noteq> None" "s \<noteq> Some ''''"
    by (auto simp: state_where_def)
  then have "filter (\<lambda>r. State r = s) (filter state_where rs) = filter (\<lambda>r. State r = s) rs"
    by (auto simp: state_where_def intro: filter_cong)
  with v g(2) gg show ?thesis
    by simp
qed

lemma severity_dist_member:
  assumes "(v, n, p) \<in> set (severity_dist_rows rs)"
  shows "v \<noteq> None \<and> n = length (filter (\<lambda>r. Severity r = v) rs)"
proof -
  from assms obtain g where
    g: "(v, g) \<in> set (group_by Severity (filter severity_where rs))" "n = length g"
    by (auto simp: severity_dist_rows_def Let_def)
  then have s: "v \<in> Severity ` set (filter severity_where rs)"
    and gg: "g = filter (\<lambda>r. Severity r = v) (filter severity_where rs)"
    by (auto simp: group_by_iff)
  from s have v: "v \<noteq> None"
    by (auto simp: severity_where_def)
  then have "filter (\<lambda>r. Severity r = v) (filter severity_where rs) =
      filter (\<lambda>r. Severity r = v) rs"
    by (auto simp: severity_where_def intro: filter_cong)
  with v g(2) gg show ?thesis
    by simp
qed

lemma severity_dist_sum:
  "sum_list (map (\<lambda>p. fst (snd p)) (severity_dist_rows rs)) =
     length (filter severity_where rs)"
proof -
  let ?gs = "map (\<lambda>(k, g). (k, length g)) (group_by Severity (filter severity_where rs))"
  have "sum_list (map (\<lambda>p. fst (snd p)) (severity_dist_rows rs)) =
      sum_list (map (\<lambda>p. fst (snd p))
        (map (\<lambda>(k, n). (k, n, (of_nat n :: rat) * 100 / of_nat (sum_list (map snd ?gs)))) ?gs))"
    by (simp only: severity_dist_rows_def Let_def sum_list_map_sort_key)
  also have "\<dots> = sum_list (map (\<lambda>p. length (snd p))
      (group_by Severity (filter severity_where rs)))"
    by (simp add: comp_def case_prod_beta)
  also have "\<dots> = length (filter severity_where rs)"
    by (rule sum_group_lengths)
  finally show ?thesis .
qed

lemma states_covered_card:
  "length (remdups (map State (filter state_where rs))) =
     card (State ` {r \<in> set rs. State r \<noteq> None \<and> State r \<noteq> Some ''''})"
  by (simp add: length_remdups_card_conv state_where_def)

lemma set_non_null: "set (non_null xs) = {x. Some x \<in> set xs}"
  by (induction xs) (auto simp: non_null_def split: option.splits)

lemma fold_least:
  fixes k :: "'a \<Rightarrow> 'b::linorder"
  shows "fold (\<lambda>a b. if k a < k b then a else b) ts t \<in> set (t # ts) \<and>
         (\<forall>u\<in>set (t # ts). k (fold (\<lambda>a b. if k a < k b then a else b) ts t) \<le> k u)"
proof (induction ts arbitrary: t)
  case Nil
  then show ?case by simp
next
  case (Cons x xs)
  show ?case
    using Cons [of "if k x < k t then x else t"]
    by (auto split: if_splits intro: order_trans less_imp_le dest: not_less [THEN iffD1])
qed

lemma fold_greatest:
  fixes k :: "'a \<Rightarrow> 'b::linorder"
  shows "fold (\<lambda>a b. if k b < k a then a else b) ts t \<in> set (t # ts) \<and>
         (\<forall>u\<in>set (t # ts). k u \<le> k (fold (\<lambda>a b. if k b < k a then a else b) ts t))"
proof (induction ts arbitrary: t)
  case Nil
  then show ?case by simp
next
  case (Cons x xs)
  show ?case
    using Cons [of "if k t < k x then x else t"]
    by (auto split: if_splits intro: order_trans less_imp_le dest: not_less [THEN iffD1])
qed

lemma sql_min_ts_spec:
  "(sql_min_ts xs = None \<longleftrightarrow> (\<forall>x\<in>set xs. x = None)) \<and>
   (\<forall>lo. sql_min_ts xs = Some lo \<longrightarrow>
      Some lo \<in> set xs \<and> (\<forall>u. Some u \<in> set xs \<longrightarrow> ts_key lo \<le> ts_key u))"
proof (cases "non_null xs")
  case Nil
  then have "{x. Some x \<in> set xs} = {}"
    by (simp flip: set_non_null)
  then have "\<forall>x\<in>set xs. x = None"
    by (metis (mono_tags, lifting) empty_iff mem_Collect_eq not_Some_eq)
  with Nil show ?thesis
    by (simp add: sql_min_ts_def)
next
  case (Cons t ts)
  then have s: "set (t # ts) = {x. Some x \<in> set xs}"
    by (simp flip: set_non_null)
  then have "Some t \<in> set xs"
    by auto
  then have n: "\<not> (\<forall>x\<in>set xs. x = None)"
    by auto
  from fold_least [of ts_key ts t] s Cons n show ?thesis
    by (auto simp: sql_min_ts_def)
qed

lemma sql_max_ts_spec:
  "(sql_max_ts xs = None \<longleftrightarrow> (\<forall>x\<in>set xs. x = None)) \<and>
   (\<forall>hi. sql_max_ts xs = Some hi \<longrightarrow>
      Some hi \<in> set xs \<and> (\<forall>u. Some u \<in> set xs \<longrightarrow> ts_key u \<le> ts_key hi))"
proof (cases "non_null xs")
  case Nil
  then have "{x. Some x \<in> set xs} = {}"
    by (simp flip: set_non_null)
  then have "\<forall>x\<in>set xs. x = None"
    by (metis (mono_tags, lifting) empty_iff mem_Collect_eq not_Some_eq)
  with Nil show ?thesis
    by (simp add: sql_max_ts_def)
next
  case (Cons t ts)
  then have s: "set (t # ts) = {x. Some x \<in> set xs}"
    by (simp flip: set_non_null)
  then have "Some t \<in> set xs"
    by auto
  then have n: "\<not> (\<forall>x\<in>set xs. x = None)"
    by auto
  from fold_greatest [of ts_key ts t] s Cons n show ?thesis
    by (auto simp: sql_max_ts_def)
qed

lemma length_top_states:
  "length (top_states_rows rs) =
     min 10 (card (State ` {r \<in> set rs. State r \<noteq> None \<and> State r \<noteq> Some ''''}))"
proof -
  have "length (group_by State (filter state_where rs)) =
      length (map fst (group_by State (filter state_where rs)))"
    by simp
  also have "\<dots> = length (remdups (map State (filter state_where rs)))"
    by (simp only: map_fst_group_by first_seen_def length_rev length_remdups_card_conv set_rev)
  finally show ?thesis
    by (simp add: top_states_rows_def states_covered_card min.commute)
qed

lemma sum_order_by_risk:
  "sum_list (map accident_count (order_by_risk eng gs)) = sum_list (map accident_count gs)"
  by (simp only: order_by_risk_def sum_list_map_sort_key)

text \<open>
  Against C2 as stated. A relation with the three key columns and the single row
  \<open>null_state_row\<close>, whose state is \<^verbatim>\<open>NULL\<close>: the row is counted by
  \<^verbatim>\<open>compute_temporal_patterns\<close>, in each of its four tables; the result differs from
  the one without the rows that have a null or empty state, a null severity or a null
  timestamp.
\<close>

theorem null_state_row_counted:
  "State null_state_row = None \<and>
   fst (compute_temporal_patterns new_analyzer (store_of (Some null_state_table))) =
     Inr \<lparr>hourly = [\<lparr>agg_key = Some 8, agg_count = 1, agg_avg = Some 2\<rparr>],
          daily = [\<lparr>agg_key = Some 3, agg_count = 1, agg_avg = Some 2\<rparr>],
          monthly = [\<lparr>agg_key = Some 1, agg_count = 1, agg_avg = Some 2\<rparr>],
          seasonal = [\<lparr>agg_key = Some ''Winter'', agg_count = 1, agg_avg = Some 2\<rparr>]\<rparr> \<and>
   temporal_patterns_query null_state_table \<noteq>
     temporal_patterns_query
       (null_state_table\<lparr>rows := filter risk_where (rows null_state_table)\<rparr>)"
  by (simp add: risk_where_def compute_temporal_patterns_def analyzer_eval_simps new_analyzer_def store_of_def
      null_state_table_def null_state_row_def temporal_eval_simps)

text \<open>
  C2, amended. Each operation leaves out exactly the rows its own \<^verbatim>\<open>WHERE\<close> clause
  rejects: removing them from the relation does not change its result, and the counts it
  returns add up to the number of the remaining rows, so that every other row is counted
  once. \<^verbatim>\<open>compute_risk\<close> (for dimensions that are plain column names) and
  \<^verbatim>\<open>compute_state_risk_rates\<close> leave out the rows with a null timestamp, a null or
  empty state or a null severity; \<^verbatim>\<open>compute_temporal_patterns\<close> leaves out only the
  rows with a null timestamp, in each of its four tables; \<^verbatim>\<open>compute_weather_risk\<close>
  leaves out the rows with a null or empty state, a null or empty weather condition or
  a null severity, whatever their timestamp. In the summary report the total counts
  every row; the date range is the least and the greatest timestamp of the rows that
  have one; the state count is the number of distinct non-null non-empty states; each
  of the top states (at most ten of them) is a non-null non-empty state with the number
  of all its rows; each entry of the severity distribution is a non-null severity with
  the number of all its rows, and these numbers add up to the number of rows with a
  severity.
\<close>

theorem exclusion_by_operation:
  "(in_fragment eng (columns t) levels \<longrightarrow>
      compute_risk_query eng (t\<lparr>rows := rs\<rparr>) levels iw it =
        compute_risk_query eng
          (t\<lparr>rows := filter (\<lambda>r. Start_Time r \<noteq> None \<and> State r \<noteq> None \<and>
                                 State r \<noteq> Some '''' \<and> Severity r \<noteq> None) rs\<rparr>) levels iw it \<and>
      (\<forall>res. compute_risk_query eng (t\<lparr>rows := rs\<rparr>) levels iw it = Inr res \<longrightarrow>
         sum_list (map accident_count res) =
           length (filter (\<lambda>r. Start_Time r \<noteq> None \<and> State r \<noteq> None \<and>
                               State r \<noteq> Some '''' \<and> Severity r \<noteq> None) rs))) \<and>
   state_risk_rates_query (t\<lparr>rows := rs\<rparr>) =
     state_risk_rates_query
       (t\<lparr>rows := filter (\<lambda>r. Start_Time r \<noteq> None \<and> State r \<noteq> None \<and>
                              State r \<noteq> Some '''' \<and> Severity r \<noteq> None) rs\<rparr>) \<and>
   (\<forall>res. state_risk_rates_query (t\<lparr>rows := rs\<rparr>) = Inr res \<longrightarrow>
      sum_list (map total_accidents res) =
        length (filter (\<lambda>r. Start_Time r \<noteq> None \<and> State r \<noteq> None \<and>
                            State r \<noteq> Some '''' \<and> Severity r \<noteq> None) rs)) \<and>
   temporal_patterns_query (t\<lparr>rows := rs\<rparr>) =
     temporal_patterns_query (t\<lparr>rows := filter (\<lambda>r. Start_Time r \<noteq> None) rs\<rparr>) \<and>
   (\<forall>p. temporal_patterns_query (t\<lparr>rows := rs\<rparr>) = Inr p \<longrightarrow>
      sum_list (map agg_count (hourly p)) = length (filter (\<lambda>r. Start_Time r \<noteq> None) rs) \<and>
      sum_list (map agg_count (daily p)) = length (filter (\<lambda>r. Start_Time r \<noteq> None) rs) \<and>
      sum_list (map agg_count (monthly p)) = length (filter (\<lambda>r. Start_Time r \<noteq> None) rs) \<and>
      sum_list (map agg_count (seasonal p)) = length (filter (\<lambda>r. Start_Time r \<noteq> None) rs)) \<and>
   weather_risk_query (t\<lparr>rows := rs\<rparr>) =
     weather_risk_query
       (t\<lparr>rows := filter (\<lambda>r. State r \<noteq> None \<and> State r \<noteq> Some '''' \<and>
                              Weather_Condition r \<noteq> None \<and> Weather_Condition r \<noteq> Some '''' \<and>
                              Severity r \<noteq> None) rs\<rparr>) \<and>
   (\<forall>res. weather_risk_query (t\<lparr>rows := rs\<rparr>) = Inr res \<longrightarrow>
      sum_list (map w_count res) =
        length (filter (\<lambda>r. State r \<noteq> None \<and> State r \<noteq> Some '''' \<and>
                            Weather_Condition r \<noteq> None \<and> Weather_Condition r \<noteq> Some '''' \<and>
                            Severity r \<noteq> None) rs)) \<and>
   (\<forall>rep. summary_report_query (t\<lparr>rows := rs\<rparr>) = Inr rep \<longrightarrow>
      summary_total_accidents rep = length rs \<and>
      (fst (date_range rep) = None \<longleftrightarrow> (\<forall>r\<in>set rs. Start_Time r = None)) \<and>
      (snd (date_range rep) = None \<longleftrightarrow> (\<forall>r\<in>set rs. Start_Time r = None)) \<and>
      (\<forall>lo. fst (date_range rep) = Some lo \<longrightarrow>
         (\<exists>r\<in>set rs. Start_Time r = Some lo) \<and>
         (\<forall>r\<in>set rs. \<forall>u. Start_Time r = Some u \<longrightarrow> ts_key lo \<le> ts_key u)) \<and>
      (\<forall>hi. snd (date_range rep) = Some hi \<longrightarrow>
         (\<exists>r\<in>set rs. Start_Time r = Some hi) \<and>
         (\<forall>r\<in>set rs. \<forall>u. Start_Time r = Some u \<longrightarrow> ts_key u \<le> ts_key hi)) \<and>
      states_covered rep =
        card (State ` {r \<in> set rs. State r \<noteq> None \<and> State r \<noteq> Some ''''}) \<and>
      length (top_states rep) = min 10 (states_covered rep) \<and>
      (\<forall>(s, n)\<in>set (top_states rep).
         s \<noteq> None \<and> s \<noteq> Some '''' \<and> n = length (filter (\<lambda>r. State r = s) rs)) \<and>
      (\<forall>(v, n, pct)\<in>set (severity_distribution rep).
         v \<noteq> None \<and> n = length (filter (\<lambda>r. Severity r = v) rs)) \<and>
      sum_list (map (\<lambda>(v, n, pct). n) (severity_distribution rep)) =
        length (filter (\<lambda>r. Severity r \<noteq> None) rs))"
proof -
  let ?t = "t\<lparr>rows := rs\<rparr>"
  have rw: "(\<lambda>r. Start_Time r \<noteq> None \<and> State r \<noteq> None \<and> State r \<noteq> Some '''' \<and>
      Severity r \<noteq> None) = risk_where"
    by (simp add: fun_eq_iff risk_where_def)
  have tw: "(\<lambda>r. Start_Time r \<noteq> None) = time_where"
    by (simp add: fun_eq_iff time_where_def)
  have ww: "(\<lambda>r. State r \<noteq> None \<and> State r \<noteq> Some '''' \<and> Weather_Condition r \<noteq> None \<and>
      Weather_Condition r \<noteq> Some '''' \<and> Severity r \<noteq> None) = weather_where"
    by (simp add: fun_eq_iff weather_where_def)
  have sw: "(\<lambda>r. Severity r \<noteq> None) = severity_where"
    by (simp add: fun_eq_iff severity_where_def)
  have risk: "compute_risk_query eng ?t levels iw it =
        compute_risk_query eng (t\<lparr>rows := filter risk_where rs\<rparr>) levels iw it \<and>
      (\<forall>res. compute_risk_query eng ?t levels iw it = Inr res \<longrightarrow>
         sum_list (map accident_count res) = length (filter risk_where rs))"
    if frag: "in_fragment eng (columns t) levels"
  proof -
    have f1: "in_fragment eng (columns ?t) levels"
      and f2: "in_fragment eng (columns (t\<lparr>rows := filter risk_where rs\<rparr>)) levels"
      using frag by simp_all
    have g: "risk_groups fs (filter risk_where rs) = risk_groups fs rs" for fs
      by (simp add: risk_groups_def)
    show ?thesis
      unfolding compute_risk_query_fragment [OF f1] compute_risk_query_fragment [OF f2]
      by (auto simp: g sum_order_by_risk sum_risk_counts split: sum.splits)
  qed
  have rates: "state_risk_rates_query ?t =
        state_risk_rates_query (t\<lparr>rows := filter risk_where rs\<rparr>) \<and>
      (\<forall>res. state_risk_rates_query ?t = Inr res \<longrightarrow>
         sum_list (map total_accidents res) = length (filter risk_where rs))"
  proof -
    have "rate_groups (filter risk_where rs) = rate_groups rs"
      by (simp add: rate_groups_def)
    then show ?thesis
      by (auto simp: state_risk_rates_query_def sum_list_map_sort_key sum_rate_totals
          split: sum.splits)
  qed
  have temporal: "temporal_patterns_query ?t =
        temporal_patterns_query (t\<lparr>rows := filter time_where rs\<rparr>) \<and>
      (\<forall>p. temporal_patterns_query ?t = Inr p \<longrightarrow>
        sum_list (map agg_count (hourly p)) = length (filter time_where rs) \<and>
        sum_list (map agg_count (daily p)) = length (filter time_where rs) \<and>
        sum_list (map agg_count (monthly p)) = length (filter time_where rs) \<and>
        sum_list (map agg_count (seasonal p)) = length (filter time_where rs))"
    by (auto simp: temporal_patterns_query_def Let_def sum_list_map_sort_key
        sum_aggregate_counts split: sum.splits)
  have weather: "weather_risk_query ?t =
        weather_risk_query (t\<lparr>rows := filter weather_where rs\<rparr>) \<and>
      (\<forall>res. weather_risk_query ?t = Inr res \<longrightarrow>
         sum_list (map w_count res) = length (filter weather_where rs))"
  proof -
    have "weather_windows (filter weather_where rs) = weather_windows rs"
      by (simp add: weather_windows_def weather_groups_def)
    then show ?thesis
      by (auto simp: weather_risk_query_def sum_list_map_sort_key sum_weather_counts
          split: sum.splits)
  qed
  have summary: "summary_total_accidents rep = length rs \<and>
      (fst (date_range rep) = None \<longleftrightarrow> (\<forall>r\<in>set rs. Start_Time r = None)) \<and>
      (snd (date_range rep) = None \<longleftrightarrow> (\<forall>r\<in>set rs. Start_Time r = None)) \<and>
      (\<forall>lo. fst (date_range rep) = Some lo \<longrightarrow>
         (\<exists>r\<in>set rs. Start_Time r = Some lo) \<and>
         (\<forall>r\<in>set rs. \<forall>u. Start_Time r = Some u \<longrightarrow> ts_key lo \<le> ts_key u)) \<and>
      (\<forall>hi. snd (date_range rep) = Some hi \<longrightarrow>
         (\<exists>r\<in>set rs. Start_Time r = Some hi) \<and>
         (\<forall>r\<in>set rs. \<forall>u. Start_Time r = Some u \<longrightarrow> ts_key u \<le> ts_key hi)) \<and>
      states_covered rep =
        card (State ` {r \<in> set rs. State r \<noteq> None \<and> State r \<noteq> Some ''''}) \<and>
      length (top_states rep) = min 10 (states_covered rep) \<and>
      (\<forall>(s, n)\<in>set (top_states rep).
         s \<noteq> None \<and> s \<noteq> Some '''' \<and> n = length (filter (\<lambda>r. State r = s) rs)) \<and>
      (\<forall>(v, n, pct)\<in>set (severity_distribution rep).
         v \<noteq> None \<and> n = length (filter (\<lambda>r. Severity r = v) rs)) \<and>
      sum_list (map (\<lambda>(v, n, pct). n) (severity_distribution rep)) =
        length (filter severity_where rs)"
    if rep: "summary_report_query ?t = Inr rep" for rep
  proof -
    from rep have r:
      "summary_total_accidents rep = length rs"
      "date_range rep = (sql_min_ts (map Start_Time rs), sql_max_ts (map Start_Time rs))"
      "states_covered rep = length (remdups (map State (filter state_where rs)))"
      "top_states rep = top_states_rows rs"
      "severity_distribution rep = severity_dist_rows rs"
      by (auto simp: summary_report_query_def sql_min_max_time_where split: sum.splits)
    have lo: "(sql_min_ts (map Start_Time rs) = None \<longleftrightarrow> (\<forall>r\<in>set rs. Start_Time r = None)) \<and>
      (\<forall>lo. sql_min_ts (map Start_Time rs) = Some lo \<longrightarrow>
         (\<exists>r\<in>set rs. Start_Time r = Some lo) \<and>
         (\<forall>r\<in>set rs. \<forall>u. Start_Time r = Some u \<longrightarrow> ts_key lo \<le> ts_key u))"
      using sql_min_ts_spec [of "map Start_Time rs"] by (auto simp: image_iff) metis+
    have hi: "(sql_max_ts (map Start_Time rs) = None \<longleftrightarrow> (\<forall>r\<in>set rs. Start_Time r = None)) \<and>
      (\<forall>hi. sql_max_ts (map Start_Time rs) = Some hi \<longrightarrow>
         (\<exists>r\<in>set rs. Start_Time r = Some hi) \<and>
         (\<forall>r\<in>set rs. \<forall>u. Start_Time r = Some u \<longrightarrow> ts_key u \<le> ts_key hi))"
      using sql_max_ts_spec [of "map Start_Time rs"] by (auto simp: image_iff) metis+
    have ts: "\<forall>(s, n)\<in>set (top_states_rows rs).
         s \<noteq> None \<and> s \<noteq> Some '''' \<and> n = length (filter (\<lambda>r. State r = s) rs)"
      using top_states_member by blast
    have sd: "\<forall>(v, n, pct)\<in>set (severity_dist_rows rs).
         v \<noteq> None \<and> n = length (filter (\<lambda>r. Severity r = v) rs)"
      using severity_dist_member by blast
    have ss: "sum_list (map (\<lambda>(v, n, pct). n) (severity_dist_rows rs)) =
        length (filter severity_where rs)"
    proof -
      have "(\<lambda>(v :: int option, n :: nat, pct :: rat). n) = (\<lambda>p. fst (snd p))"
        by (simp add: fun_eq_iff)
      then show ?thesis
        by (simp only: severity_dist_sum)
    qed
    show ?thesis
      unfolding r fst_conv snd_conv
      using lo hi ts sd ss
      by (simp only: states_covered_card length_top_states simp_thms) blast
  qed
  show ?thesis
    unfolding rw tw ww sw
    using risk rates temporal weather summary by blast
qed

theorem exclusion_by_operation_witness:
  "(\<exists>res. compute_risk_query first_seen_engine
             (null_state_table\<lparr>rows := [null_state_row, scenario_row Jan 1 8 2 ''Clear'']\<rparr>)
             [''State''] False False = Inr res \<and>
           sum_list (map accident_count res) = 1) \<and>
   (\<exists>p. temporal_patterns_query
           (null_state_table\<lparr>rows := [null_state_row, scenario_row Jan 1 8 2 ''Clear'']\<rparr>) =
           Inr p \<and>
         sum_list (map agg_count (hourly p)) = 2 \<and>
         sum_list (map agg_count (seasonal p)) = 2) \<and>
   (\<exists>rep. summary_report_query
             (null_state_table\<lparr>rows := [null_state_row, scenario_row Jan 1 8 2 ''Clear'']\<rparr>) =
             Inr rep \<and>
           summary_total_accidents rep = 2 \<and>
           sum_list (map (\<lambda>(v, n, pct). n) (severity_distribution rep)) = 2 \<and>
           (\<forall>(s, n)\<in>set (top_states rep). s \<noteq> None \<and> n \<le> 1))"
proof -
  let ?rs = "[null_state_row, scenario_row Jan 1 8 2 ''Clear'']"
  let ?T = "null_state_table\<lparr>rows := ?rs\<rparr>"
  note e = exclusion_by_operation [where eng = first_seen_engine and t = null_state_table
      and rs = ?rs and levels = "[''State'']" and iw = False and it = False]
  have c: "columns ?T = key_columns"
    by (simp add: null_state_table_def)
  have f: "in_fragment first_seen_engine (columns null_state_table) [''State'']"
    by (simp add: null_state_table_def fragment_eval_simps first_seen_engine_def)
  then have f': "in_fragment first_seen_engine (columns ?T) [''State'']"
    by simp
  have "\<exists>res. compute_risk_query first_seen_engine ?T [''State''] False False = Inr res"
    unfolding compute_risk_query_fragment [OF f'] c
    by (simp add: group_cols_def year_col_def parse_select_def bind_expr_def find_column_def
        same_name_def lower_char_def key_columns_def)
  then obtain res where
    q: "compute_risk_query first_seen_engine ?T [''State''] False False = Inr res"
    by blast
  from e [THEN conjunct1] f q have "sum_list (map accident_count res) =
      length (filter (\<lambda>r. Start_Time r \<noteq> None \<and> State r \<noteq> None \<and>
                          State r \<noteq> Some '''' \<and> Severity r \<noteq> None) ?rs)"
    by blast
  then have 1: "sum_list (map accident_count res) = 1"
    by (simp add: null_state_row_def scenario_row_def)
  have "\<exists>p. temporal_patterns_query ?T = Inr p"
    by (simp add: temporal_patterns_query_def null_state_table_def key_columns_def Let_def)
  then obtain p where p: "temporal_patterns_query ?T = Inr p"
    by blast
  from e [THEN conjunct2, THEN conjunct2, THEN conjunct2, THEN conjunct2, THEN conjunct1] p
  have "sum_list (map agg_count (hourly p)) = length (filter (\<lambda>r. Start_Time r \<noteq> None) ?rs)"
    and "sum_list (map agg_count (seasonal p)) = length (filter (\<lambda>r. Start_Time r \<noteq> None) ?rs)"
    by blast+
  then have 2: "sum_list (map agg_count (hourly p)) = 2"
    "sum_list (map agg_count (seasonal p)) = 2"
    by (simp_all add: null_state_row_def scenario_row_def)
  have "\<exists>rep. summary_report_query ?T = Inr rep"
    by (simp add: summary_report_query_def null_state_table_def key_columns_def)
  then obtain rep where rep: "summary_report_query ?T = Inr rep"
    by blast
  note s = e [THEN conjunct2, THEN conjunct2, THEN conjunct2, THEN conjunct2, THEN conjunct2,
      THEN conjunct2, THEN conjunct2, rule_format, OF rep]
  from s have 3: "summary_total_accidents rep = 2"
    by simp
  from s have "sum_list (map (\<lambda>(v, n, pct). n) (severity_distribution rep)) =
      length (filter (\<lambda>r. Severity r \<noteq> None) ?rs)"
    by blast
  then have 4: "sum_list (map (\<lambda>(v, n, pct). n) (severity_distribution rep)) = 2"
    by (simp add: null_state_row_def scenario_row_def)
  from s have ts: "\<forall>(s, n)\<in>set (top_states rep).
      s \<noteq> None \<and> s \<noteq> Some '''' \<and> n = length (filter (\<lambda>r. State r = s) ?rs)"
    by blast
  have 5: "\<forall>(s, n)\<in>set (top_states rep). s \<noteq> None \<and> n \<le> 1"
  proof clarify
    fix s n assume "(s, n) \<in> set (top_states rep)"
    with ts have a: "s \<noteq> None" and n: "n = length (filter (\<lambda>r. State r = s) ?rs)"
      by blast+
    from a have "State null_state_row \<noteq> s"
      by (auto simp: null_state_row_def)
    with n have "n = length (filter (\<lambda>r. State r = s) [scenario_row Jan 1 8 2 ''Clear''])"
      by simp
    then have "n \<le> 1"
      by simp
    with a show "s \<noteq> None \<and> n \<le> 1"
      by simp
  qed
  from q 1 p 2 rep 3 4 5 show ?thesis
    by blast
qed

end
